theory Spec2Isabelle
  imports Complex_Main "HOL-Library.Multiset"
begin

section \<open>JavaScript values and strings\<close>

text \<open>
  The employee fields that arrive from a JSON body are dynamically typed. The agents and
  the classifier test them for truthiness, call \<^verbatim>\<open>toLowerCase\<close> on them and
  interpolate them into template strings, so the model keeps the scalar JavaScript values.
  Strings are ASCII character lists; numbers in these fields are integers.
\<close>

datatype jsval = JUndefined | JNull | JBool bool | JNum int | JStr string

text \<open>A thrown \<^verbatim>\<open>TypeError\<close>; the argument is \<^verbatim>\<open>err.message\<close>.\<close>

datatype js_error = TypeError string

fun message :: "js_error \<Rightarrow> string" where
  "message (TypeError m) = m"

fun truthy :: "jsval \<Rightarrow> bool" where
  "truthy JUndefined = False"
| "truthy JNull = False"
| "truthy (JBool b) = b"
| "truthy (JNum n) = (n \<noteq> 0)"
| "truthy (JStr s) = (s \<noteq> [])"

text \<open>Reading a property: an absent property reads as \<^verbatim>\<open>undefined\<close>.\<close>

fun getp :: "jsval option \<Rightarrow> jsval" where
  "getp None = JUndefined"
| "getp (Some v) = v"

text \<open>A flag property is kept by its truthiness; \<open>None\<close> is an absent property.\<close>

fun flag :: "bool option \<Rightarrow> bool" where
  "flag None = False"
| "flag (Some b) = b"

definition lower_char :: "char \<Rightarrow> char" where
  "lower_char c =
     (let n = (of_char c :: nat) in if 65 \<le> n \<and> n \<le> 90 then char_of (n + 32) else c)"

definition upper_char :: "char \<Rightarrow> char" where
  "upper_char c =
     (let n = (of_char c :: nat) in if 97 \<le> n \<and> n \<le> 122 then char_of (n - 32) else c)"

definition toLowerCase :: "string \<Rightarrow> string" where
  "toLowerCase s = map lower_char s"

text \<open>The regular-expression classes \<^verbatim>\<open>\s\<close> and \<^verbatim>\<open>\w\<close> on ASCII.\<close>

definition is_space :: "char \<Rightarrow> bool" where
  "is_space c = ((of_char c :: nat) \<in> {9, 10, 11, 12, 13, 32})"

definition is_word :: "char \<Rightarrow> bool" where
  "is_word c =
     (let n = (of_char c :: nat)
      in (48 \<le> n \<and> n \<le> 57) \<or> (65 \<le> n \<and> n \<le> 90) \<or> (97 \<le> n \<and> n \<le> 122) \<or> n = 95)"

text \<open>\<^verbatim>\<open>s.replace(/[C]+/g, '-')\<close>: every maximal run of characters of the class
  becomes one dash.\<close>

fun replace_from :: "(char \<Rightarrow> bool) \<Rightarrow> bool \<Rightarrow> string \<Rightarrow> string" where
  "replace_from P in_run [] = []"
| "replace_from P in_run (c # cs) =
     (if P c then (if in_run then replace_from P True cs else CHR ''-'' # replace_from P True cs)
      else c # replace_from P False cs)"

definition replace_runs :: "(char \<Rightarrow> bool) \<Rightarrow> string \<Rightarrow> string" where
  "replace_runs P s = replace_from P False s"

fun digit_char :: "nat \<Rightarrow> char" where
  "digit_char n = char_of (48 + n)"

fun string_of_nat :: "nat \<Rightarrow> string" where
  "string_of_nat n =
     (if n < 10 then [digit_char n] else string_of_nat (n div 10) @ [digit_char (n mod 10)])"

definition string_of_int :: "int \<Rightarrow> string" where
  "string_of_int i = (if i < 0 then CHR ''-'' # string_of_nat (nat (- i)) else string_of_nat (nat i))"

text \<open>Interpolation \<^verbatim>\<open>`${v}`\<close> of a value into a template string.\<close>

fun to_string :: "jsval \<Rightarrow> string" where
  "to_string JUndefined = ''undefined''"
| "to_string JNull = ''null''"
| "to_string (JBool b) = (if b then ''true'' else ''false'')"
| "to_string (JNum n) = string_of_int n"
| "to_string (JStr s) = s"

section \<open>Numbers\<close>

text \<open>
  A number of the language is an IEEE 754 double. A finite double is modelled by the rational
  it denotes. \<open>round_double\<close> takes a rational to the nearest double, a tie going to the
  even significand: it is the value of a decimal literal, and the rounding every arithmetic
  operation applies to its exact result. The quantum of the result is \<open>2^(e - 52)\<close> for the
  binary exponent \<open>e\<close> of the argument, and \<open>2^(-1074)\<close> below the normal range. A result
  at or above \<open>2^1024\<close> stands for an infinity of that sign.
\<close>

fun ilog2 :: "nat \<Rightarrow> nat" where
  "ilog2 n = (if n < 2 then 0 else Suc (ilog2 (n div 2)))"

definition pow2 :: "int \<Rightarrow> rat" where
  "pow2 e = (if 0 \<le> e then 2 ^ nat e else 1 / 2 ^ nat (- e))"

text \<open>The binary exponent of a positive rational \<open>a\<close>: the \<open>e\<close> with
  \<open>2^e \<le> a < 2^(e + 1)\<close>.\<close>

definition exponent :: "rat \<Rightarrow> int" where
  "exponent a =
     (if 1 \<le> a then int (ilog2 (nat \<lfloor>a\<rfloor>)) else - int (ilog2 (nat \<lceil>1 / a\<rceil> - 1)) - 1)"

text \<open>The nearest integer, a tie going to the even one.\<close>

definition round_even :: "rat \<Rightarrow> int" where
  "round_even x =
     (let n = \<lfloor>x\<rfloor>; r = x - of_int n
      in if r < 1 / 2 then n else if 1 / 2 < r then n + 1 else if even n then n else n + 1)"

definition round_double :: "rat \<Rightarrow> rat" where
  "round_double x =
     (if x = 0 then 0
      else (let a = \<bar>x\<bar>;
                e = max (exponent a) (- 1022);
                q = pow2 (e - 52)
            in sgn x * of_int (round_even (a / q)) * q))"

text \<open>The rationals that are finite doubles.\<close>

definition is_double :: "rat \<Rightarrow> bool" where
  "is_double x = (round_double x = x \<and> \<bar>x\<bar> < 2 ^ 1024)"

text \<open>\<^verbatim>\<open>x + y\<close> and \<^verbatim>\<open>x - y\<close> on numbers.\<close>

definition js_add :: "rat \<Rightarrow> rat \<Rightarrow> rat" where
  "js_add x y = round_double (x + y)"

definition js_sub :: "rat \<Rightarrow> rat \<Rightarrow> rat" where
  "js_sub x y = round_double (x - y)"

section \<open>Data model\<close>

record task =
  id_t :: string
  agent :: string
  type_t :: string
  title :: string
  status :: string
  priority :: string
  dueInDays :: "nat option"
  category :: string
  note_t :: "string option"
  metadata :: "(string \<times> string) option"

record timeline_entry =
  title_e :: string
  category_e :: string
  status_e :: string
  agent_e :: string

record document =
  id_d :: string

text \<open>A member of the buddy pool; \<open>score\<close> is present on the scored copies only. The
  rating and the score are numbers.\<close>

record buddy_rec =
  id_b :: string
  name_b :: string
  department_b :: string
  seniority :: string
  rating :: rat
  score :: "rat option"

datatype buddy_val = BUndefined | BNull | BRec buddy_rec

fun getp_buddy :: "buddy_val option \<Rightarrow> buddy_val" where
  "getp_buddy None = BUndefined"
| "getp_buddy (Some v) = v"

text \<open>
  The employee object. A field is \<open>None\<close> when the object has no such own property, which
  matters to \<^verbatim>\<open>Object.assign\<close> and to the spread copies. The provisioning flags are kept
  by their truthiness. Keys the core never reads (\<^verbatim>\<open>id\<close>, \<^verbatim>\<open>createdAt\<close>,
  \<^verbatim>\<open>onboardingPlan\<close>) are left out.
\<close>

record employee =
  firstName :: "jsval option"
  lastName :: "jsval option"
  email :: "jsval option"
  department :: "jsval option"
  role :: "jsval option"
  startDate :: "jsval option"
  manager :: "jsval option"
  location :: "jsval option"
  documents :: "document list option"
  accounts :: "string list option"
  hardware :: "string list option"
  tasks :: "task list option"
  policiesAcknowledged :: "string list option"
  completedTraining :: "string list option"
  buddy :: "buddy_val option"
  emailProvisioned :: "bool option"
  benefitsEnrollmentStarted :: "bool option"
  checkInsScheduled :: "bool option"
  managerMeetingScheduled :: "bool option"
  teamIntroScheduled :: "bool option"
  onboardingStarted :: "string option"

section \<open>Classifier: the risk score\<close>

text \<open>
  \<^verbatim>\<open>_leadDays\<close>: \<open>date_ms\<close> is the time value of \<^verbatim>\<open>new Date(dateStr)\<close> in
  milliseconds (\<open>None\<close> for an invalid date, whose arithmetic is NaN), \<open>today\<close> is local
  midnight of the current day. The quotient of the two integers is taken exactly.
\<close>

definition leadDays :: "(jsval \<Rightarrow> int option) \<Rightarrow> int \<Rightarrow> jsval \<Rightarrow> int option" where
  "leadDays date_ms today dateStr =
     (case date_ms dateStr of
        None \<Rightarrow> None
      | Some start \<Rightarrow> Some ((start - today) div (1000 * 60 * 60 * 24)))"

text \<open>The local variable \<^verbatim>\<open>score\<close> of \<^verbatim>\<open>_classifyRisk\<close> before the thresholds.
  Every comparison with NaN is false, so an invalid date adds nothing.\<close>

definition riskScore :: "(jsval \<Rightarrow> int option) \<Rightarrow> int \<Rightarrow> employee \<Rightarrow> nat" where
  "riskScore date_ms today e =
     (if \<not> truthy (getp (email e)) then 2 else 0)
   + (if \<not> truthy (getp (role e)) then 2 else 0)
   + (if \<not> truthy (getp (department e)) then 2 else 0)
   + (if \<not> truthy (getp (manager e)) then 1 else 0)
   + (if \<not> truthy (getp (location e)) then 1 else 0)
   + (if truthy (getp (startDate e)) then
        (case leadDays date_ms today (getp (startDate e)) of
           None \<Rightarrow> 0
         | Some d \<Rightarrow> if d < 0 then 3 else if d < 3 then 2 else if d < 7 then 1 else 0)
      else 1)"

definition classifyRisk :: "(jsval \<Rightarrow> int option) \<Rightarrow> int \<Rightarrow> employee \<Rightarrow> string" where
  "classifyRisk date_ms today e =
     (let score = riskScore date_ms today e
      in if score \<ge> 5 then ''high'' else if score \<ge> 2 then ''medium'' else ''low'')"

text \<open>The profile \<open>e'\<close> is scored no higher than \<open>e\<close>, and its risk level is no higher.\<close>

definition risk_not_raised :: "(jsval \<Rightarrow> int option) \<Rightarrow> int \<Rightarrow> employee \<Rightarrow> employee \<Rightarrow> bool" where
  "risk_not_raised date_ms today e' e =
     (riskScore date_ms today e' \<le> riskScore date_ms today e
      \<and> (classifyRisk date_ms today e = ''low'' \<longrightarrow> classifyRisk date_ms today e' = ''low'')
      \<and> (classifyRisk date_ms today e' = ''high'' \<longrightarrow> classifyRisk date_ms today e = ''high''))"

section \<open>Orchestrator: the timeline builder\<close>

text \<open>
  The nested conditional of \<^verbatim>\<open>buildTimeline\<close>. The outer test is on the truthiness of
  \<^verbatim>\<open>task.dueInDays\<close>: an absent value and the number 0 are both falsy.
\<close>

definition bucket :: "task \<Rightarrow> string" where
  "bucket t =
     (case dueInDays t of
        None \<Rightarrow> ''Immediate''
      | Some d \<Rightarrow>
          if d \<noteq> 0 then
            (if d \<le> 3 then ''Day 1-3''
             else if d \<le> 7 then ''Week 1''
             else if d \<le> 14 then ''Week 2''
             else if d \<le> 30 then ''Month 1''
             else ''Month 2-3'')
          else ''Immediate'')"

definition entry_of :: "task \<Rightarrow> timeline_entry" where
  "entry_of t = \<lparr>title_e = title t, category_e = category t, status_e = status t, agent_e = agent t\<rparr>"

text \<open>
  The timeline object is an association list in key insertion order.
  \<^verbatim>\<open>if (!timeline[bucket]) timeline[bucket] = []; timeline[bucket].push(e)\<close>
\<close>

fun push_bucket :: "string \<Rightarrow> timeline_entry \<Rightarrow> (string \<times> timeline_entry list) list
    \<Rightarrow> (string \<times> timeline_entry list) list" where
  "push_bucket b e [] = [(b, [e])]"
| "push_bucket b e ((k, es) # rest) =
     (if k = b then (k, es @ [e]) # rest else (k, es) # push_bucket b e rest)"

definition buildTimeline :: "task list \<Rightarrow> (string \<times> timeline_entry list) list" where
  "buildTimeline ts = fold (\<lambda>t acc. push_bucket (bucket t) (entry_of t) acc) ts []"

text \<open>The bucket rule in the words of the specification: only an absent
  \<^verbatim>\<open>dueInDays\<close> is immediate, and 0 falls under the first range.\<close>

definition spec_bucket :: "task \<Rightarrow> string" where
  "spec_bucket t =
     (case dueInDays t of
        None \<Rightarrow> ''Immediate''
      | Some d \<Rightarrow>
          if d \<le> 3 then ''Day 1-3''
          else if d \<le> 7 then ''Week 1''
          else if d \<le> 14 then ''Week 2''
          else if d \<le> 30 then ''Month 1''
          else ''Month 2-3'')"


section \<open>Log entries, contexts and intents\<close>

text \<open>A log entry. The synthetic entry the orchestrator writes for a rejected run has no
  timestamp.\<close>

record log_entry =
  timestamp :: "string option"
  agent_l :: string
  action :: string
  detail :: string

record doc_spec =
  id_s :: string
  label :: string

record hr_perception =
  requiredDocs :: "doc_spec list"
  missing :: "doc_spec list"
  submitted :: "document list"

record profile =
  software :: "string list"
  hardware_p :: "string list"
  access :: "string list"

text \<open>\<open>profile_i = None\<close>: the lookup in the profile table returned a member inherited from
  \<^verbatim>\<open>Object.prototype\<close>, a truthy value without \<^verbatim>\<open>software\<close>, \<^verbatim>\<open>hardware\<close>
  or \<^verbatim>\<open>access\<close>.\<close>

record it_perception =
  profile_i :: "profile option"
  department_i :: string
  existingAccounts :: "string list"
  existingHardware :: "string list"

record module =
  id_m :: string
  title_m :: string
  duration :: string
  type_m :: string

text \<open>\<open>roleModules = None\<close>: an inherited member, which is not iterable.\<close>

record training_perception =
  companyWideModules :: "module list"
  roleModules :: "module list option"
  completedModules :: "string list"
  department_t :: string

record buddy_perception =
  candidates :: "buddy_rec list"
  alreadyAssigned :: bool

record ctx =
  employee :: employee
  hrPerception :: "hr_perception option"
  itPerception :: "it_perception option"
  trainingPerception :: "training_perception option"
  buddyPerception :: "buddy_perception option"

text \<open>The intents, one constructor for each \<^verbatim>\<open>type\<close> tag with its payload. The buddy of
  \<open>Assign_buddy\<close> is \<^verbatim>\<open>candidates[0]\<close>, undefined for an empty candidate list.\<close>

datatype intent =
    Request_documents "doc_spec list"
  | Assign_policy_acknowledgments "string list"
  | Initiate_benefits_enrollment
  | Provision_email string
  | Assign_software "string list"
  | Request_hardware "string list"
  | Configure_access "string list"
  | Assign_modules "module list"
  | Schedule_manager_meeting
  | Schedule_team_intro
  | Assign_buddy "buddy_rec option"
  | Schedule_check_ins

section \<open>BaseAgent\<close>

datatype agent_status = Idle | Running | Completed | Error

datatype phase = Perceive | Decide | Act | Reflect

text \<open>
  An agent object: its fields and its four overridable methods. A method takes the log
  array of the instance and returns it with what it appended; a throw is \<open>Inl\<close>, and the
  entries logged before the throw stay. Every agent of the repository mutates the context
  object it is given and returns that same object, so the model has one context value where
  \<^verbatim>\<open>run\<close> has the aliases \<^verbatim>\<open>context\<close> and \<^verbatim>\<open>perceivedCtx\<close>.

  \<open>clock k\<close> is what \<^verbatim>\<open>new Date().toISOString()\<close> returns in the call of
  \<^verbatim>\<open>addLog\<close> that finds \<open>k\<close> entries in the log. \<open>calls\<close> is a history
  variable, not a field of the source: the phases \<^verbatim>\<open>run\<close> has invoked on this instance.
\<close>

record agent =
  name :: string
  clock :: "nat \<Rightarrow> string"
  status_a :: agent_status
  log_a :: "log_entry list"
  calls :: "phase list"
  perceive :: "ctx \<Rightarrow> log_entry list \<Rightarrow> (js_error + ctx) \<times> log_entry list"
  decide :: "ctx \<Rightarrow> log_entry list \<Rightarrow> (js_error + intent list) \<times> log_entry list"
  act :: "ctx \<Rightarrow> intent list \<Rightarrow> log_entry list \<Rightarrow> (js_error + ctx) \<times> log_entry list"
  reflect :: "ctx \<Rightarrow> log_entry list \<Rightarrow> (js_error + bool \<times> ctx) \<times> log_entry list"

definition addLog :: "(nat \<Rightarrow> string) \<Rightarrow> string \<Rightarrow> string \<Rightarrow> string \<Rightarrow> log_entry list
    \<Rightarrow> log_entry list" where
  "addLog clk nm a d lg =
     lg @ [\<lparr>timestamp = Some (clk (length lg)), agent_l = nm, action = a, detail = d\<rparr>]"

definition MAX_ITERATIONS :: nat where
  "MAX_ITERATIONS = 5"

text \<open>
  The \<^verbatim>\<open>for\<close> loop of \<^verbatim>\<open>run\<close> from iteration \<open>i\<close>, with the current context, log and
  call history. It returns the context after the loop, or the error thrown.
\<close>

function run_loop :: "agent \<Rightarrow> nat \<Rightarrow> ctx \<Rightarrow> log_entry list \<Rightarrow> phase list
    \<Rightarrow> (js_error + ctx) \<times> log_entry list \<times> phase list" where
  "run_loop ag i c lg tr =
     (if i < MAX_ITERATIONS then
        (case perceive ag c lg of
           (Inl err, lg1) \<Rightarrow> (Inl err, lg1, tr @ [Perceive])
         | (Inr perceivedCtx, lg1) \<Rightarrow>
             (case decide ag perceivedCtx lg1 of
                (Inl err, lg2) \<Rightarrow> (Inl err, lg2, tr @ [Perceive, Decide])
              | (Inr actions, lg2) \<Rightarrow>
                  if length actions = 0 then
                    (Inr perceivedCtx,
                     addLog (clock ag) (name ag) ''no-actions'' ''No further actions required'' lg2,
                     tr @ [Perceive, Decide])
                  else
                    (case act ag perceivedCtx actions lg2 of
                       (Inl err, lg3) \<Rightarrow> (Inl err, lg3, tr @ [Perceive, Decide, Act])
                     | (Inr c1, lg3) \<Rightarrow>
                         (case reflect ag c1 lg3 of
                            (Inl err, lg4) \<Rightarrow> (Inl err, lg4, tr @ [Perceive, Decide, Act, Reflect])
                          | (Inr (is_complete, c2), lg4) \<Rightarrow>
                              if is_complete then (Inr c2, lg4, tr @ [Perceive, Decide, Act, Reflect])
                              else run_loop ag (i + 1) c2 lg4
                                     (tr @ [Perceive, Decide, Act, Reflect])))))
      else (Inr c, lg, tr))"
  by pat_completeness auto
termination
  by (relation "measure (\<lambda>(ag, i, c, lg, tr). MAX_ITERATIONS - i)") auto

text \<open>\<^verbatim>\<open>run\<close>: the result of the promise (\<open>Inr\<close> fulfilled with context and log,
  \<open>Inl\<close> rejected with the error) and the agent object after the call.\<close>

definition run :: "agent \<Rightarrow> ctx \<Rightarrow> (js_error + ctx \<times> log_entry list) \<times> agent" where
  "run ag c =
     (let lg0 = addLog (clock ag) (name ag) ''start'' (''Agent '' @ name ag @ '' starting'') (log_a ag)
      in case run_loop ag 0 c lg0 (calls ag) of
           (Inr c', lg1, tr) \<Rightarrow>
             (let lg2 = addLog (clock ag) (name ag) ''complete''
                          (''Agent '' @ name ag @ '' finished successfully'') lg1
              in (Inr (c', lg2), ag\<lparr>status_a := Completed, log_a := lg2, calls := tr\<rparr>))
         | (Inl err, lg1, tr) \<Rightarrow>
             (let lg2 = addLog (clock ag) (name ag) ''error'' (message err) lg1
              in (Inl err, ag\<lparr>status_a := Error, log_a := lg2, calls := tr\<rparr>)))"

section \<open>Helpers shared by the agents\<close>

text \<open>\<^verbatim>\<open>(x.tasks || [])\<close>, and likewise for the other array fields.\<close>

definition or_empty :: "'a list option \<Rightarrow> 'a list" where
  "or_empty xs = (case xs of None \<Rightarrow> [] | Some ys \<Rightarrow> ys)"

text \<open>\<^verbatim>\<open>if (!context.employee.tasks) context.employee.tasks = []\<close>\<close>

definition init_tasks :: "employee \<Rightarrow> employee" where
  "init_tasks emp = (case tasks emp of None \<Rightarrow> emp\<lparr>tasks := Some []\<rparr> | Some ts \<Rightarrow> emp)"

text \<open>\<^verbatim>\<open>context.employee.tasks.push(...)\<close> on the array that \<^verbatim>\<open>act\<close> has initialised.\<close>

definition push_tasks :: "task list \<Rightarrow> employee \<Rightarrow> employee" where
  "push_tasks new emp = emp\<lparr>tasks := Some (or_empty (tasks emp) @ new)\<rparr>"

text \<open>
  \<^verbatim>\<open>(v || dflt).toLowerCase()\<close>: a truthy value that is not a string has no such method.
  The message text of a \<^verbatim>\<open>TypeError\<close> is the engine's; the model fixes one wording.
\<close>

definition lower_or :: "string \<Rightarrow> jsval \<Rightarrow> js_error + string" where
  "lower_or dflt v =
     (if truthy v then
        (case v of
           JStr s \<Rightarrow> Inr (toLowerCase s)
         | _ \<Rightarrow> Inl (TypeError ''toLowerCase is not a function''))
      else Inr (toLowerCase dflt))"

text \<open>\<^verbatim>\<open>v?.toLowerCase()\<close>\<close>

definition opt_lower :: "jsval \<Rightarrow> js_error + jsval" where
  "opt_lower v =
     (case v of
        JUndefined \<Rightarrow> Inr JUndefined
      | JNull \<Rightarrow> Inr JUndefined
      | JStr s \<Rightarrow> Inr (JStr (toLowerCase s))
      | _ \<Rightarrow> Inl (TypeError ''toLowerCase is not a function''))"

text \<open>The en dash of the task notes, in UTF-8.\<close>

definition en_dash :: string where
  "en_dash = [char_of (226 :: nat), char_of (128 :: nat), char_of (147 :: nat)]"

text \<open>A lowercased key that names a member every object inherits from
  \<^verbatim>\<open>Object.prototype\<close>.\<close>

definition inherited_key :: "string \<Rightarrow> bool" where
  "inherited_key k = (k = ''constructor'' \<or> k = ''__proto__'')"

section \<open>HRAgent\<close>

definition hr_requiredDocs :: "doc_spec list" where
  "hr_requiredDocs =
     [\<lparr>id_s = ''government_id'', label = ''Government-issued ID''\<rparr>,
      \<lparr>id_s = ''tax_w4'', label = ''W-4 Tax Withholding Form''\<rparr>,
      \<lparr>id_s = ''i9_form'', label = ''I-9 Employment Eligibility''\<rparr>,
      \<lparr>id_s = ''direct_deposit'', label = ''Direct Deposit Authorization''\<rparr>,
      \<lparr>id_s = ''emergency_contact'', label = ''Emergency Contact Form''\<rparr>,
      \<lparr>id_s = ''nda'', label = ''Non-Disclosure Agreement''\<rparr>]"

definition hr_policies :: "string list" where
  "hr_policies = [''code_of_conduct'', ''data_privacy'', ''remote_work'', ''anti_harassment'']"

definition hr_perceive :: "ctx \<Rightarrow> log_entry list \<Rightarrow> (js_error + ctx) \<times> log_entry list" where
  "hr_perceive c lg =
     (let sub = or_empty (documents (employee c));
          miss = filter (\<lambda>doc. find (\<lambda>d. id_d d = id_s doc) sub = None) hr_requiredDocs
      in (Inr (c\<lparr>hrPerception :=
                   Some \<lparr>requiredDocs = hr_requiredDocs, missing = miss, submitted = sub\<rparr>\<rparr>), lg))"

definition hr_decide :: "ctx \<Rightarrow> log_entry list \<Rightarrow> (js_error + intent list) \<times> log_entry list" where
  "hr_decide c lg =
     (case hrPerception c of
        None \<Rightarrow> (Inl (TypeError ''Cannot destructure property missing of context.hrPerception''), lg)
      | Some p \<Rightarrow>
          (let a1 = (if length (missing p) > 0 then [Request_documents (missing p)] else []);
               acknowledged = or_empty (policiesAcknowledged (employee c));
               pendingPolicies = filter (\<lambda>po. po \<notin> set acknowledged) hr_policies;
               a2 = (if length pendingPolicies > 0
                     then [Assign_policy_acknowledgments pendingPolicies] else []);
               a3 = (if \<not> flag (benefitsEnrollmentStarted (employee c))
                     then [Initiate_benefits_enrollment] else [])
           in (Inr (a1 @ a2 @ a3), lg)))"

text \<open>\<^verbatim>\<open>policy.replace(/_/g, ' ').replace(/\b\w/g, (c) => c.toUpperCase())\<close>\<close>

fun capitalize_from :: "bool \<Rightarrow> string \<Rightarrow> string" where
  "capitalize_from prev_word [] = []"
| "capitalize_from prev_word (c # cs) =
     (if is_word c \<and> \<not> prev_word then upper_char c else c) # capitalize_from (is_word c) cs"

definition policy_label :: "string \<Rightarrow> string" where
  "policy_label policy =
     capitalize_from False (map (\<lambda>c. if c = CHR ''_'' then CHR '' '' else c) policy)"

definition hr_doc_task :: "string \<Rightarrow> doc_spec \<Rightarrow> task" where
  "hr_doc_task nm doc =
     \<lparr>id_t = ''hr-doc-'' @ id_s doc, agent = nm, type_t = ''document_upload'',
      title = ''Upload: '' @ label doc, status = ''pending'', priority = ''high'',
      dueInDays = Some 3, category = ''HR Documents'', note_t = None, metadata = None\<rparr>"

definition hr_policy_task :: "string \<Rightarrow> string \<Rightarrow> task" where
  "hr_policy_task nm policy =
     \<lparr>id_t = ''hr-policy-'' @ policy, agent = nm, type_t = ''policy_acknowledgment'',
      title = ''Acknowledge: '' @ policy_label policy @ '' Policy'', status = ''pending'',
      priority = ''medium'', dueInDays = Some 5, category = ''Policies'', note_t = None,
      metadata = None\<rparr>"

definition hr_benefits_task :: "string \<Rightarrow> task" where
  "hr_benefits_task nm =
     \<lparr>id_t = ''hr-benefits-enrollment'', agent = nm, type_t = ''benefits_enrollment'',
      title = ''Complete Benefits Enrollment'', status = ''pending'', priority = ''medium'',
      dueInDays = Some 14, category = ''Benefits'', note_t = None, metadata = None\<rparr>"

text \<open>One round of the \<^verbatim>\<open>switch\<close> in \<^verbatim>\<open>act\<close>; an intent of another type matches no
  case.\<close>

fun hr_act_step :: "(nat \<Rightarrow> string) \<Rightarrow> string \<Rightarrow> intent \<Rightarrow> employee \<times> log_entry list
    \<Rightarrow> employee \<times> log_entry list" where
  "hr_act_step clk nm (Request_documents docs) (emp, lg) =
     (push_tasks (map (hr_doc_task nm) docs) emp,
      addLog clk nm ''request_documents''
        (''Requested '' @ string_of_nat (length docs) @ '' documents'') lg)"
| "hr_act_step clk nm (Assign_policy_acknowledgments pols) (emp, lg) =
     (push_tasks (map (hr_policy_task nm) pols) emp,
      addLog clk nm ''assign_policies''
        (''Assigned '' @ string_of_nat (length pols) @ '' policy acknowledgments'') lg)"
| "hr_act_step clk nm Initiate_benefits_enrollment (emp, lg) =
     (push_tasks [hr_benefits_task nm] (emp\<lparr>benefitsEnrollmentStarted := Some True\<rparr>),
      addLog clk nm ''benefits_enrollment'' ''Initiated benefits enrollment'' lg)"
| "hr_act_step clk nm other (emp, lg) = (emp, lg)"

definition hr_act :: "(nat \<Rightarrow> string) \<Rightarrow> string \<Rightarrow> ctx \<Rightarrow> intent list \<Rightarrow> log_entry list
    \<Rightarrow> (js_error + ctx) \<times> log_entry list" where
  "hr_act clk nm c actions lg =
     (case fold (hr_act_step clk nm) actions (init_tasks (employee c), lg) of
        (emp, lg') \<Rightarrow> (Inr (c\<lparr>employee := emp\<rparr>), lg'))"

definition hr_reflect :: "(nat \<Rightarrow> string) \<Rightarrow> string \<Rightarrow> ctx \<Rightarrow> log_entry list
    \<Rightarrow> (js_error + bool \<times> ctx) \<times> log_entry list" where
  "hr_reflect clk nm c lg =
     (let hrTasks = filter (\<lambda>t. agent t = nm) (or_empty (tasks (employee c)));
          pendingCount = length (filter (\<lambda>t. status t = ''pending'') hrTasks)
      in (Inr (True, c),
          addLog clk nm ''reflect''
            (''HR onboarding: '' @ string_of_nat (length hrTasks) @ '' tasks created, ''
               @ string_of_nat pendingCount @ '' pending'') lg))"

text \<open>The object the constructor builds.\<close>

definition HRAgent :: "(nat \<Rightarrow> string) \<Rightarrow> agent" where
  "HRAgent clk =
     \<lparr>name = ''HR Agent'', clock = clk, status_a = Idle, log_a = [], calls = [],
      perceive = hr_perceive, decide = hr_decide,
      act = hr_act clk ''HR Agent'', reflect = hr_reflect clk ''HR Agent''\<rparr>"

section \<open>ITSetupAgent\<close>

definition it_engineering :: profile where
  "it_engineering =
     \<lparr>software = [''IDE License'', ''GitHub Enterprise'', ''Jira'', ''Slack'', ''AWS Console''],
      hardware_p = [''MacBook Pro 16\"'', ''External Monitor 27\"'', ''Mechanical Keyboard'',
                    ''USB-C Hub''],
      access = [''VPN'', ''CI/CD Pipeline'', ''Staging Servers'', ''Code Repositories'']\<rparr>"

definition it_design :: profile where
  "it_design =
     \<lparr>software = [''Figma Enterprise'', ''Adobe Creative Suite'', ''Slack'', ''Jira''],
      hardware_p = [''MacBook Pro 16\"'', ''External Monitor 32\" 4K'', ''Wacom Tablet''],
      access = [''VPN'', ''Design Asset Library'', ''Brand Portal'']\<rparr>"

definition it_product :: profile where
  "it_product =
     \<lparr>software = [''Jira'', ''Confluence'', ''Slack'', ''Amplitude'', ''Mixpanel''],
      hardware_p = [''MacBook Pro 14\"'', ''External Monitor 27\"''],
      access = [''VPN'', ''Analytics Dashboard'', ''Customer Feedback Portal'']\<rparr>"

definition it_sales :: profile where
  "it_sales =
     \<lparr>software = [''Salesforce'', ''Slack'', ''Zoom Pro'', ''DocuSign''],
      hardware_p = [''MacBook Air'', ''External Monitor 24\"''],
      access = [''VPN'', ''CRM'', ''Sales Playbook'']\<rparr>"

definition it_default :: profile where
  "it_default =
     \<lparr>software = [''Slack'', ''Google Workspace'', ''Zoom''],
      hardware_p = [''Laptop'', ''External Monitor 24\"''],
      access = [''VPN'', ''Company Intranet'']\<rparr>"

text \<open>
  \<^verbatim>\<open>roleProfiles[department] || roleProfiles.default\<close>. The table is an object literal,
  so a key it does not define but \<^verbatim>\<open>Object.prototype\<close> does yields the inherited
  member, which is truthy and has none of the three lists: the result is then \<open>None\<close>.
\<close>

definition it_profile :: "string \<Rightarrow> profile option" where
  "it_profile d =
     (if d = ''engineering'' then Some it_engineering
      else if d = ''design'' then Some it_design
      else if d = ''product'' then Some it_product
      else if d = ''sales'' then Some it_sales
      else if d = ''default'' then Some it_default
      else if inherited_key d then None
      else Some it_default)"

definition it_perceive :: "ctx \<Rightarrow> log_entry list \<Rightarrow> (js_error + ctx) \<times> log_entry list" where
  "it_perceive c lg =
     (case lower_or ''default'' (getp (department (employee c))) of
        Inl err \<Rightarrow> (Inl err, lg)
      | Inr d \<Rightarrow>
          (Inr (c\<lparr>itPerception :=
                    Some \<lparr>profile_i = it_profile d, department_i = d,
                          existingAccounts = or_empty (accounts (employee c)),
                          existingHardware = or_empty (hardware (employee c))\<rparr>\<rparr>), lg))"

text \<open>The address of the \<^verbatim>\<open>provision_email\<close> intent:
  \<^verbatim>\<open>`${employee.firstName?.toLowerCase()}.${employee.lastName?.toLowerCase()}@company.com`\<close>\<close>

definition it_address :: "employee \<Rightarrow> js_error + string" where
  "it_address emp =
     (case opt_lower (getp (firstName emp)) of
        Inl err \<Rightarrow> Inl err
      | Inr f \<Rightarrow>
          (case opt_lower (getp (lastName emp)) of
             Inl err \<Rightarrow> Inl err
           | Inr l \<Rightarrow> Inr (to_string f @ ''.'' @ to_string l @ ''@company.com'')))"

definition it_decide :: "ctx \<Rightarrow> log_entry list \<Rightarrow> (js_error + intent list) \<times> log_entry list" where
  "it_decide c lg =
     (case itPerception c of
        None \<Rightarrow> (Inl (TypeError ''Cannot destructure property profile of context.itPerception''), lg)
      | Some p \<Rightarrow>
          (case (if \<not> flag (emailProvisioned (employee c))
                 then map_sum id (\<lambda>a. [Provision_email a]) (it_address (employee c))
                 else Inr []) of
             Inl err \<Rightarrow> (Inl err, lg)
           | Inr a1 \<Rightarrow>
               (case profile_i p of
                  None \<Rightarrow> (Inl (TypeError ''Cannot read properties of undefined (reading filter)''), lg)
                | Some pr \<Rightarrow>
                    (let neededSoftware = filter (\<lambda>s. s \<notin> set (existingAccounts p)) (software pr);
                         a2 = (if length neededSoftware > 0
                               then [Assign_software neededSoftware] else []);
                         neededHardware = filter (\<lambda>h. h \<notin> set (existingHardware p)) (hardware_p pr);
                         a3 = (if length neededHardware > 0
                               then [Request_hardware neededHardware] else [])
                     in (Inr (a1 @ a2 @ a3 @ [Configure_access (access pr)]), lg)))))"

definition is_quote :: "char \<Rightarrow> bool" where
  "is_quote c = ((of_char c :: nat) = 34)"

definition is_slash :: "char \<Rightarrow> bool" where
  "is_slash c = ((of_char c :: nat) = 47)"

definition it_email_task :: "string \<Rightarrow> string \<Rightarrow> task" where
  "it_email_task nm addr =
     \<lparr>id_t = ''it-email-setup'', agent = nm, type_t = ''auto_provisioned'',
      title = ''Email provisioned: '' @ addr, status = ''completed'', priority = ''high'',
      dueInDays = None, category = ''IT Accounts'', note_t = None, metadata = None\<rparr>"

definition it_sw_task :: "string \<Rightarrow> string \<Rightarrow> task" where
  "it_sw_task nm sw =
     \<lparr>id_t = ''it-sw-'' @ replace_runs is_space (toLowerCase sw), agent = nm,
      type_t = ''auto_provisioned'', title = ''License assigned: '' @ sw, status = ''completed'',
      priority = ''medium'', dueInDays = None, category = ''Software Licenses'', note_t = None,
      metadata = None\<rparr>"

definition it_hw_task :: "string \<Rightarrow> string \<Rightarrow> task" where
  "it_hw_task nm hw =
     \<lparr>id_t = ''it-hw-'' @ replace_runs (\<lambda>c. is_space c \<or> is_quote c) (toLowerCase hw), agent = nm,
      type_t = ''hardware_request'', title = ''Hardware: '' @ hw, status = ''in_progress'',
      priority = ''high'', dueInDays = Some 5, category = ''Hardware'',
      note_t = Some (''Procurement order placed '' @ en_dash @ '' shipping in progress''), metadata = None\<rparr>"

definition it_access_task :: "string \<Rightarrow> string \<Rightarrow> task" where
  "it_access_task nm acc =
     \<lparr>id_t = ''it-access-'' @ replace_runs (\<lambda>c. is_space c \<or> is_slash c) (toLowerCase acc),
      agent = nm, type_t = ''auto_provisioned'', title = ''Access granted: '' @ acc,
      status = ''completed'', priority = ''high'', dueInDays = None,
      category = ''Security & Access'', note_t = None, metadata = None\<rparr>"

fun it_act_step :: "(nat \<Rightarrow> string) \<Rightarrow> string \<Rightarrow> intent \<Rightarrow> employee \<times> log_entry list
    \<Rightarrow> employee \<times> log_entry list" where
  "it_act_step clk nm (Provision_email addr) (emp, lg) =
     (push_tasks [it_email_task nm addr]
        (emp\<lparr>emailProvisioned := Some True, email := Some (JStr addr)\<rparr>),
      addLog clk nm ''provision_email'' (''Created email: '' @ addr) lg)"
| "it_act_step clk nm (Assign_software sws) (emp, lg) =
     (let emp1 = push_tasks (map (it_sw_task nm) sws) emp
      in (emp1\<lparr>accounts := Some (or_empty (accounts emp1) @ sws)\<rparr>,
          addLog clk nm ''assign_software''
            (''Assigned '' @ string_of_nat (length sws) @ '' licenses'') lg))"
| "it_act_step clk nm (Request_hardware hws) (emp, lg) =
     (push_tasks (map (it_hw_task nm) hws) emp,
      addLog clk nm ''request_hardware''
        (''Requested '' @ string_of_nat (length hws) @ '' hardware items'') lg)"
| "it_act_step clk nm (Configure_access accs) (emp, lg) =
     (push_tasks (map (it_access_task nm) accs) emp,
      addLog clk nm ''configure_access''
        (''Configured '' @ string_of_nat (length accs) @ '' access grants'') lg)"
| "it_act_step clk nm other (emp, lg) = (emp, lg)"

definition it_act :: "(nat \<Rightarrow> string) \<Rightarrow> string \<Rightarrow> ctx \<Rightarrow> intent list \<Rightarrow> log_entry list
    \<Rightarrow> (js_error + ctx) \<times> log_entry list" where
  "it_act clk nm c actions lg =
     (case fold (it_act_step clk nm) actions (init_tasks (employee c), lg) of
        (emp, lg') \<Rightarrow> (Inr (c\<lparr>employee := emp\<rparr>), lg'))"

definition it_reflect :: "(nat \<Rightarrow> string) \<Rightarrow> string \<Rightarrow> ctx \<Rightarrow> log_entry list
    \<Rightarrow> (js_error + bool \<times> ctx) \<times> log_entry list" where
  "it_reflect clk nm c lg =
     (let itTasks = filter (\<lambda>t. agent t = nm) (or_empty (tasks (employee c)));
          auto = length (filter (\<lambda>t. type_t t = ''auto_provisioned'') itTasks);
          pending = length (filter (\<lambda>t. status t \<noteq> ''completed'') itTasks)
      in (Inr (True, c),
          addLog clk nm ''reflect''
            (''IT setup: '' @ string_of_nat auto @ '' auto-provisioned, ''
               @ string_of_nat pending @ '' awaiting fulfillment'') lg))"

definition ITSetupAgent :: "(nat \<Rightarrow> string) \<Rightarrow> agent" where
  "ITSetupAgent clk =
     \<lparr>name = ''IT Setup Agent'', clock = clk, status_a = Idle, log_a = [], calls = [],
      perceive = it_perceive, decide = it_decide,
      act = it_act clk ''IT Setup Agent'', reflect = it_reflect clk ''IT Setup Agent''\<rparr>"

section \<open>TrainingAgent\<close>

definition tr_companyWideModules :: "module list" where
  "tr_companyWideModules =
     [\<lparr>id_m = ''company-overview'', title_m = ''Company Overview & Mission'',
       duration = ''45 min'', type_m = ''video''\<rparr>,
      \<lparr>id_m = ''security-awareness'', title_m = ''Security Awareness Training'',
       duration = ''30 min'', type_m = ''interactive''\<rparr>,
      \<lparr>id_m = ''dei-training'', title_m = ''Diversity, Equity & Inclusion'',
       duration = ''60 min'', type_m = ''workshop''\<rparr>,
      \<lparr>id_m = ''tools-intro'', title_m = ''Internal Tools & Systems Overview'',
       duration = ''90 min'', type_m = ''hands-on''\<rparr>]"

definition tr_engineering :: "module list" where
  "tr_engineering =
     [\<lparr>id_m = ''eng-architecture'', title_m = ''System Architecture Deep Dive'',
       duration = ''120 min'', type_m = ''hands-on''\<rparr>,
      \<lparr>id_m = ''eng-git-workflow'', title_m = ''Git Workflow & Code Review Process'',
       duration = ''60 min'', type_m = ''hands-on''\<rparr>,
      \<lparr>id_m = ''eng-ci-cd'', title_m = ''CI/CD Pipeline Walkthrough'',
       duration = ''45 min'', type_m = ''video''\<rparr>,
      \<lparr>id_m = ''eng-oncall'', title_m = ''On-Call Procedures & Incident Response'',
       duration = ''60 min'', type_m = ''interactive''\<rparr>]"

definition tr_design :: "module list" where
  "tr_design =
     [\<lparr>id_m = ''des-system'', title_m = ''Design System & Brand Guidelines'',
       duration = ''90 min'', type_m = ''workshop''\<rparr>,
      \<lparr>id_m = ''des-research'', title_m = ''User Research Methods'',
       duration = ''60 min'', type_m = ''video''\<rparr>,
      \<lparr>id_m = ''des-accessibility'', title_m = ''Accessibility Standards (WCAG)'',
       duration = ''45 min'', type_m = ''interactive''\<rparr>]"

definition tr_product :: "module list" where
  "tr_product =
     [\<lparr>id_m = ''pm-roadmap'', title_m = ''Product Roadmap & Strategy'',
       duration = ''90 min'', type_m = ''workshop''\<rparr>,
      \<lparr>id_m = ''pm-analytics'', title_m = ''Analytics & Data-Driven Decisions'',
       duration = ''60 min'', type_m = ''hands-on''\<rparr>,
      \<lparr>id_m = ''pm-customer'', title_m = ''Customer Journey Mapping'',
       duration = ''45 min'', type_m = ''interactive''\<rparr>]"

definition tr_sales :: "module list" where
  "tr_sales =
     [\<lparr>id_m = ''sales-product'', title_m = ''Product Knowledge Bootcamp'',
       duration = ''120 min'', type_m = ''workshop''\<rparr>,
      \<lparr>id_m = ''sales-crm'', title_m = ''CRM & Sales Tools Training'',
       duration = ''60 min'', type_m = ''hands-on''\<rparr>,
      \<lparr>id_m = ''sales-pitch'', title_m = ''Sales Pitch & Demo Skills'',
       duration = ''90 min'', type_m = ''workshop''\<rparr>]"

text \<open>\<^verbatim>\<open>roleModules[department] || roleModules.default\<close>, with the inherited members as
  in the profile table of the IT agent.\<close>

definition tr_rolePath :: "string \<Rightarrow> module list option" where
  "tr_rolePath d =
     (if d = ''engineering'' then Some tr_engineering
      else if d = ''design'' then Some tr_design
      else if d = ''product'' then Some tr_product
      else if d = ''sales'' then Some tr_sales
      else if d = ''default'' then Some []
      else if inherited_key d then None
      else Some [])"

definition tr_perceive :: "ctx \<Rightarrow> log_entry list \<Rightarrow> (js_error + ctx) \<times> log_entry list" where
  "tr_perceive c lg =
     (case lower_or ''default'' (getp (department (employee c))) of
        Inl err \<Rightarrow> (Inl err, lg)
      | Inr d \<Rightarrow>
          (Inr (c\<lparr>trainingPerception :=
                    Some \<lparr>companyWideModules = tr_companyWideModules, roleModules = tr_rolePath d,
                          completedModules = or_empty (completedTraining (employee c)),
                          department_t = d\<rparr>\<rparr>), lg))"

definition tr_decide :: "ctx \<Rightarrow> log_entry list \<Rightarrow> (js_error + intent list) \<times> log_entry list" where
  "tr_decide c lg =
     (case trainingPerception c of
        None \<Rightarrow>
          (Inl (TypeError ''Cannot destructure property companyWideModules of context.trainingPerception''),
           lg)
      | Some p \<Rightarrow>
          (case roleModules p of
             None \<Rightarrow> (Inl (TypeError ''roleModules is not iterable''), lg)
           | Some rms \<Rightarrow>
               (let allModules = companyWideModules p @ rms;
                    pendingModules = filter (\<lambda>m. id_m m \<notin> set (completedModules p)) allModules;
                    a1 = (if length pendingModules > 0 then [Assign_modules pendingModules] else []);
                    a2 = (if \<not> flag (managerMeetingScheduled (employee c))
                          then [Schedule_manager_meeting] else []);
                    a3 = (if \<not> flag (teamIntroScheduled (employee c))
                          then [Schedule_team_intro] else [])
                in (Inr (a1 @ a2 @ a3), lg))))"

definition tr_week1_task :: "string \<Rightarrow> module \<Rightarrow> task" where
  "tr_week1_task nm m =
     \<lparr>id_t = ''training-'' @ id_m m, agent = nm, type_t = ''training_module'', title = title_m m,
      status = ''pending'', priority = ''high'', dueInDays = Some 7,
      category = ''Week 1 Training'', note_t = None, metadata = Some (duration m, type_m m)\<rparr>"

definition tr_week2_task :: "string \<Rightarrow> module \<Rightarrow> task" where
  "tr_week2_task nm m =
     \<lparr>id_t = ''training-'' @ id_m m, agent = nm, type_t = ''training_module'', title = title_m m,
      status = ''pending'', priority = ''medium'', dueInDays = Some 14,
      category = ''Week 2 Training'', note_t = None, metadata = Some (duration m, type_m m)\<rparr>"

definition tr_manager_task :: "string \<Rightarrow> task" where
  "tr_manager_task nm =
     \<lparr>id_t = ''training-manager-1on1'', agent = nm, type_t = ''meeting'',
      title = ''1:1 Meeting with Manager'', status = ''pending'', priority = ''high'',
      dueInDays = Some 2, category = ''Meetings'',
      note_t = Some (''Introductory 1:1 '' @ en_dash
                      @ '' discuss role expectations, goals, and questions''),
      metadata = None\<rparr>"

definition tr_team_task :: "string \<Rightarrow> task" where
  "tr_team_task nm =
     \<lparr>id_t = ''training-team-intro'', agent = nm, type_t = ''meeting'',
      title = ''Team Introduction Session'', status = ''pending'', priority = ''medium'',
      dueInDays = Some 3, category = ''Meetings'',
      note_t = Some (''Meet the team '' @ en_dash @ '' informal introduction and Q&A''),
      metadata = None\<rparr>"

fun tr_act_step :: "(nat \<Rightarrow> string) \<Rightarrow> string \<Rightarrow> intent \<Rightarrow> employee \<times> log_entry list
    \<Rightarrow> employee \<times> log_entry list" where
  "tr_act_step clk nm (Assign_modules mods) (emp, lg) =
     (let weekOne = take 4 mods; weekTwo = drop 4 mods
      in (push_tasks (map (tr_week2_task nm) weekTwo) (push_tasks (map (tr_week1_task nm) weekOne) emp),
          addLog clk nm ''assign_modules''
            (''Assigned '' @ string_of_nat (length mods) @ '' training modules'') lg))"
| "tr_act_step clk nm Schedule_manager_meeting (emp, lg) =
     (push_tasks [tr_manager_task nm] (emp\<lparr>managerMeetingScheduled := Some True\<rparr>),
      addLog clk nm ''schedule_meeting'' ''Scheduled manager 1:1'' lg)"
| "tr_act_step clk nm Schedule_team_intro (emp, lg) =
     (push_tasks [tr_team_task nm] (emp\<lparr>teamIntroScheduled := Some True\<rparr>),
      addLog clk nm ''schedule_meeting'' ''Scheduled team introduction'' lg)"
| "tr_act_step clk nm other (emp, lg) = (emp, lg)"

definition tr_act :: "(nat \<Rightarrow> string) \<Rightarrow> string \<Rightarrow> ctx \<Rightarrow> intent list \<Rightarrow> log_entry list
    \<Rightarrow> (js_error + ctx) \<times> log_entry list" where
  "tr_act clk nm c actions lg =
     (case fold (tr_act_step clk nm) actions (init_tasks (employee c), lg) of
        (emp, lg') \<Rightarrow> (Inr (c\<lparr>employee := emp\<rparr>), lg'))"

definition tr_reflect :: "(nat \<Rightarrow> string) \<Rightarrow> string \<Rightarrow> ctx \<Rightarrow> log_entry list
    \<Rightarrow> (js_error + bool \<times> ctx) \<times> log_entry list" where
  "tr_reflect clk nm c lg =
     (let trainingTasks = filter (\<lambda>t. agent t = nm) (or_empty (tasks (employee c)));
          modules = length (filter (\<lambda>t. type_t t = ''training_module'') trainingTasks);
          meetings = length (filter (\<lambda>t. type_t t = ''meeting'') trainingTasks)
      in (Inr (True, c),
          addLog clk nm ''reflect''
            (''Training plan: '' @ string_of_nat modules @ '' modules + ''
               @ string_of_nat meetings @ '' meetings assigned'') lg))"

definition TrainingAgent :: "(nat \<Rightarrow> string) \<Rightarrow> agent" where
  "TrainingAgent clk =
     \<lparr>name = ''Training Agent'', clock = clk, status_a = Idle, log_a = [], calls = [],
      perceive = tr_perceive, decide = tr_decide,
      act = tr_act clk ''Training Agent'', reflect = tr_reflect clk ''Training Agent''\<rparr>"

section \<open>BuddyAgent\<close>

text \<open>The pool the constructor installs. Ratings are the decimal literals of the source,
  taken as exact rationals.\<close>

text \<open>The pool of the constructor; a literal such as \<^verbatim>\<open>4.9\<close> is the double nearest to
  49/10.\<close>

definition buddyPool0 :: "buddy_rec list" where
  "buddyPool0 =
     [\<lparr>id_b = ''b1'', name_b = ''Sarah Chen'', department_b = ''engineering'',
       seniority = ''senior'', rating = round_double (49 / 10), score = None\<rparr>,
      \<lparr>id_b = ''b2'', name_b = ''Marcus Johnson'', department_b = ''engineering'',
       seniority = ''lead'', rating = round_double (48 / 10), score = None\<rparr>,
      \<lparr>id_b = ''b3'', name_b = ''Priya Patel'', department_b = ''design'',
       seniority = ''senior'', rating = round_double (49 / 10), score = None\<rparr>,
      \<lparr>id_b = ''b4'', name_b = ''Alex Rivera'', department_b = ''product'',
       seniority = ''senior'', rating = round_double (47 / 10), score = None\<rparr>,
      \<lparr>id_b = ''b5'', name_b = ''Jordan Kim'', department_b = ''sales'',
       seniority = ''lead'', rating = round_double (48 / 10), score = None\<rparr>,
      \<lparr>id_b = ''b6'', name_b = ''Emily Thompson'', department_b = ''engineering'',
       seniority = ''staff'', rating = 5, score = None\<rparr>,
      \<lparr>id_b = ''b7'', name_b = ''David O'' @ [char_of (39 :: nat)] @ ''Brien'',
       department_b = ''product'', seniority = ''director'', rating = round_double (46 / 10), score = None\<rparr>,
      \<lparr>id_b = ''b8'', name_b = ''Lisa Nakamura'', department_b = ''design'',
       seniority = ''lead'', rating = round_double (49 / 10), score = None\<rparr>]"

text \<open>The callback of \<^verbatim>\<open>buddyPool.map\<close>: the copy of the buddy with its score.\<close>

definition score_buddy :: "string \<Rightarrow> buddy_rec \<Rightarrow> buddy_rec" where
  "score_buddy dept b =
     (let s0 = rating b;
          s1 = (if department_b b = dept then js_add s0 3 else s0)
      in b\<lparr>score := Some s1\<rparr>)"

text \<open>The comparator \<^verbatim>\<open>(a, b) => b.score - a.score\<close>; a difference with an undefined
  score is NaN, which \<^verbatim>\<open>sort\<close> takes as 0.\<close>

definition by_score :: "buddy_rec \<Rightarrow> buddy_rec \<Rightarrow> rat" where
  "by_score a b = (case (score a, score b) of (Some sa, Some sb) \<Rightarrow> js_sub sb sa | _ \<Rightarrow> 0)"

text \<open>\<^verbatim>\<open>Array.prototype.sort\<close> with a comparator is a stable sort: an element goes
  behind every element that does not compare greater than it.\<close>

fun insert_by :: "('a \<Rightarrow> 'a \<Rightarrow> rat) \<Rightarrow> 'a \<Rightarrow> 'a list \<Rightarrow> 'a list" where
  "insert_by cmp x [] = [x]"
| "insert_by cmp x (y # ys) = (if cmp y x > 0 then x # y # ys else y # insert_by cmp x ys)"

definition sort_by :: "('a \<Rightarrow> 'a \<Rightarrow> rat) \<Rightarrow> 'a list \<Rightarrow> 'a list" where
  "sort_by cmp xs = foldl (\<lambda>acc x. insert_by cmp x acc) [] xs"

definition bd_perceive :: "buddy_rec list \<Rightarrow> ctx \<Rightarrow> log_entry list
    \<Rightarrow> (js_error + ctx) \<times> log_entry list" where
  "bd_perceive buddyPool c lg =
     (case lower_or [] (getp (department (employee c))) of
        Inl err \<Rightarrow> (Inl err, lg)
      | Inr dept \<Rightarrow>
          (let scored = sort_by by_score (map (score_buddy dept) buddyPool)
           in (Inr (c\<lparr>buddyPerception :=
                        Some \<lparr>candidates = take 3 scored,
                              alreadyAssigned =
                                (case getp_buddy (buddy (employee c)) of BRec b \<Rightarrow> True | _ \<Rightarrow> False)\<rparr>\<rparr>),
               lg)))"

definition bd_decide :: "ctx \<Rightarrow> log_entry list \<Rightarrow> (js_error + intent list) \<times> log_entry list" where
  "bd_decide c lg =
     (case buddyPerception c of
        None \<Rightarrow> (Inl (TypeError ''Cannot read properties of undefined (reading alreadyAssigned)''), lg)
      | Some p \<Rightarrow>
          (let a1 = (if \<not> alreadyAssigned p
                     then [Assign_buddy (case candidates p of [] \<Rightarrow> None | b # bs \<Rightarrow> Some b)]
                     else []);
               a2 = (if \<not> flag (checkInsScheduled (employee c)) then [Schedule_check_ins] else [])
           in (Inr (a1 @ a2), lg)))"

definition bd_intro_task :: "string \<Rightarrow> buddy_rec \<Rightarrow> task" where
  "bd_intro_task nm b =
     \<lparr>id_t = ''buddy-intro-meeting'', agent = nm, type_t = ''meeting'',
      title = ''Meet your buddy: '' @ name_b b, status = ''pending'', priority = ''high'',
      dueInDays = Some 2, category = ''Buddy Program'',
      note_t = Some (name_b b @ '' ('' @ department_b b @ '', '' @ seniority b
                      @ '') will be your onboarding buddy for the first 90 days''),
      metadata = None\<rparr>"

definition bd_checkIns :: "(nat \<times> string) list" where
  "bd_checkIns =
     [(7, ''Week 1 Check-in with Buddy''),
      (14, ''Week 2 Check-in with Buddy''),
      (30, ''Day 30 Review with Buddy & Manager''),
      (60, ''Day 60 Mid-Point Review''),
      (90, ''Day 90 Final Onboarding Review'')]"

definition bd_checkin_task :: "string \<Rightarrow> nat \<times> string \<Rightarrow> task" where
  "bd_checkin_task nm ci =
     \<lparr>id_t = ''buddy-checkin-day'' @ string_of_nat (fst ci), agent = nm, type_t = ''check_in'',
      title = snd ci, status = ''pending'',
      priority = (if fst ci \<le> 14 then ''medium'' else ''low''),
      dueInDays = Some (fst ci), category = ''Buddy Program'', note_t = None, metadata = None\<rparr>"

text \<open>One round of the \<^verbatim>\<open>switch\<close>. With an undefined buddy the assignment to
  \<^verbatim>\<open>employee.buddy\<close> is followed by a throw on \<^verbatim>\<open>action.buddy.name\<close>.\<close>

fun bd_act_step :: "(nat \<Rightarrow> string) \<Rightarrow> string \<Rightarrow> intent \<Rightarrow> employee \<times> log_entry list
    \<Rightarrow> (js_error + employee) \<times> log_entry list" where
  "bd_act_step clk nm (Assign_buddy None) (emp, lg) =
     (Inl (TypeError ''Cannot read properties of undefined (reading name)''), lg)"
| "bd_act_step clk nm (Assign_buddy (Some b)) (emp, lg) =
     (Inr (push_tasks [bd_intro_task nm b] (emp\<lparr>buddy := Some (BRec b)\<rparr>)),
      addLog clk nm ''assign_buddy'' (''Matched with buddy: '' @ name_b b) lg)"
| "bd_act_step clk nm Schedule_check_ins (emp, lg) =
     (Inr (push_tasks (map (bd_checkin_task nm) bd_checkIns) (emp\<lparr>checkInsScheduled := Some True\<rparr>)),
      addLog clk nm ''schedule_check_ins'' ''Scheduled 5 check-ins over 90 days'' lg)"
| "bd_act_step clk nm other (emp, lg) = (Inr emp, lg)"

text \<open>The \<^verbatim>\<open>for\<close> loop over the intents, left by the first throw.\<close>

fun bd_act_loop :: "(nat \<Rightarrow> string) \<Rightarrow> string \<Rightarrow> intent list \<Rightarrow> employee \<times> log_entry list
    \<Rightarrow> (js_error + employee) \<times> log_entry list" where
  "bd_act_loop clk nm [] (emp, lg) = (Inr emp, lg)"
| "bd_act_loop clk nm (a # as) (emp, lg) =
     (case bd_act_step clk nm a (emp, lg) of
        (Inl err, lg') \<Rightarrow> (Inl err, lg')
      | (Inr emp', lg') \<Rightarrow> bd_act_loop clk nm as (emp', lg'))"

definition bd_act :: "(nat \<Rightarrow> string) \<Rightarrow> string \<Rightarrow> ctx \<Rightarrow> intent list \<Rightarrow> log_entry list
    \<Rightarrow> (js_error + ctx) \<times> log_entry list" where
  "bd_act clk nm c actions lg =
     (case bd_act_loop clk nm actions (init_tasks (employee c), lg) of
        (Inl err, lg') \<Rightarrow> (Inl err, lg')
      | (Inr emp, lg') \<Rightarrow> (Inr (c\<lparr>employee := emp\<rparr>), lg'))"

text \<open>
  \<^verbatim>\<open>x.toFixed(1)\<close> for a number \<open>x\<close> below \<open>10^21\<close> in magnitude: the sign is split
  off, the tenth nearest to the exact value of the double is taken with a tie going up, and
  the digits are printed with one decimal.
\<close>

definition toFixed1 :: "rat \<Rightarrow> string" where
  "toFixed1 x =
     (let a = (if x < 0 then - x else x);
          n = nat \<lfloor>10 * a + 1 / 2\<rfloor>
      in (if x < 0 then ''-'' else []) @ string_of_nat (n div 10) @ ''.'' @ [digit_char (n mod 10)])"

definition bd_reflect :: "(nat \<Rightarrow> string) \<Rightarrow> string \<Rightarrow> ctx \<Rightarrow> log_entry list
    \<Rightarrow> (js_error + bool \<times> ctx) \<times> log_entry list" where
  "bd_reflect clk nm c lg =
     (Inr (True, c),
      addLog clk nm ''reflect''
        (case getp_buddy (buddy (employee c)) of
           BRec b \<Rightarrow>
             ''Buddy assigned: '' @ name_b b @ '' (score: ''
               @ (case score b of None \<Rightarrow> ''undefined'' | Some s \<Rightarrow> toFixed1 s) @ '')''
         | _ \<Rightarrow> ''No buddy assignment needed'') lg)"

definition BuddyAgent :: "buddy_rec list \<Rightarrow> (nat \<Rightarrow> string) \<Rightarrow> agent" where
  "BuddyAgent buddyPool clk =
     \<lparr>name = ''Buddy Agent'', clock = clk, status_a = Idle, log_a = [], calls = [],
      perceive = bd_perceive buddyPool, decide = bd_decide,
      act = bd_act clk ''Buddy Agent'', reflect = bd_reflect clk ''Buddy Agent''\<rparr>"

section \<open>Orchestrator\<close>

text \<open>\<^verbatim>\<open>this.agents\<close>: the four agent objects, which live as long as the orchestrator.\<close>

record orchestrator =
  hr_agent :: agent
  it_agent :: agent
  training_agent :: agent
  buddy_agent :: agent

text \<open>The constructor. Each agent has its own clock readings; the buddy pool is the one the
  Buddy agent holds.\<close>

definition new_Orchestrator :: "(nat \<Rightarrow> string) \<Rightarrow> (nat \<Rightarrow> string) \<Rightarrow> (nat \<Rightarrow> string)
    \<Rightarrow> (nat \<Rightarrow> string) \<Rightarrow> buddy_rec list \<Rightarrow> orchestrator" where
  "new_Orchestrator clk_hr clk_it clk_tr clk_bd buddyPool =
     \<lparr>hr_agent = HRAgent clk_hr, it_agent = ITSetupAgent clk_it,
      training_agent = TrainingAgent clk_tr, buddy_agent = BuddyAgent buddyPool clk_bd\<rparr>"

text \<open>What one call of \<^verbatim>\<open>onboard\<close> reads from the system clock: the ISO string of
  \<^verbatim>\<open>onboardingStarted\<close>, \<^verbatim>\<open>Date.now()\<close> at the start and in \<^verbatim>\<open>buildSummary\<close>.\<close>

record env =
  started :: string
  startTime :: int
  endTime :: int

record agent_summary =
  totalActions :: nat
  status_s :: string
  keyEvents :: "string list"

record summary =
  employeeName :: string
  department_s :: jsval
  totalTasks :: nat
  completed :: nat
  inProgress :: nat
  pending :: nat
  orchestrationTimeMs :: int
  agentSummaries :: "(string \<times> agent_summary) list"

record plan =
  employee_p :: employee
  summary_p :: summary
  agentLogs :: "(string \<times> log_entry list) list"
  timeline :: "(string \<times> timeline_entry list) list"

text \<open>One property of \<^verbatim>\<open>Object.assign(target, source)\<close>: an own property of the source
  overwrites, an absent one leaves the target as it is.\<close>

definition overlay :: "'a option \<Rightarrow> 'a option \<Rightarrow> 'a option" where
  "overlay t s = (case s of None \<Rightarrow> t | Some v \<Rightarrow> Some v)"

definition Object_assign :: "employee \<Rightarrow> employee \<Rightarrow> employee" where
  "Object_assign t s =
     \<lparr>firstName = overlay (firstName t) (firstName s),
      lastName = overlay (lastName t) (lastName s),
      email = overlay (email t) (email s),
      department = overlay (department t) (department s),
      role = overlay (role t) (role s),
      startDate = overlay (startDate t) (startDate s),
      manager = overlay (manager t) (manager s),
      location = overlay (location t) (location s),
      documents = overlay (documents t) (documents s),
      accounts = overlay (accounts t) (accounts s),
      hardware = overlay (hardware t) (hardware s),
      tasks = overlay (tasks t) (tasks s),
      policiesAcknowledged = overlay (policiesAcknowledged t) (policiesAcknowledged s),
      completedTraining = overlay (completedTraining t) (completedTraining s),
      buddy = overlay (buddy t) (buddy s),
      emailProvisioned = overlay (emailProvisioned t) (emailProvisioned s),
      benefitsEnrollmentStarted = overlay (benefitsEnrollmentStarted t) (benefitsEnrollmentStarted s),
      checkInsScheduled = overlay (checkInsScheduled t) (checkInsScheduled s),
      managerMeetingScheduled = overlay (managerMeetingScheduled t) (managerMeetingScheduled s),
      teamIntroScheduled = overlay (teamIntroScheduled t) (teamIntroScheduled s),
      onboardingStarted = overlay (onboardingStarted t) (onboardingStarted s)\<rparr>"

text \<open>\<^verbatim>\<open>obj[key] = value\<close> on an object kept as an association list in key insertion
  order.\<close>

fun assign_key :: "string \<Rightarrow> 'v \<Rightarrow> (string \<times> 'v) list \<Rightarrow> (string \<times> 'v) list" where
  "assign_key k v [] = [(k, v)]"
| "assign_key k v ((k', v') # rest) =
     (if k' = k then (k', v) # rest else (k', v') # assign_key k v rest)"

text \<open>
  \<^verbatim>\<open>Promise.allSettled\<close>: the promise with index \<open>i\<close> writes its outcome to slot
  \<open>i\<close> of the result array when it settles; \<open>order\<close> lists the indices in the order
  in which the promises settle. The combined promise resolves once every slot is filled;
  \<open>None\<close>: it stays pending.
\<close>

definition allSettled :: "nat list \<Rightarrow> 'a list \<Rightarrow> 'a list option" where
  "allSettled order ps =
     those (fold (\<lambda>i slots. if i < length slots then slots[i := Some (ps ! i)] else slots)
              order (replicate (length ps) None))"

text \<open>The employee of the shared context that \<^verbatim>\<open>onboard\<close> builds from its argument.\<close>

definition shared_employee :: "env \<Rightarrow> employee \<Rightarrow> employee" where
  "shared_employee ev employeeData =
     employeeData\<lparr>tasks := Some [],
                  documents := Some (or_empty (documents employeeData)),
                  accounts := Some (or_empty (accounts employeeData)),
                  hardware := Some (or_empty (hardware employeeData)),
                  onboardingStarted := Some (started ev)\<rparr>"

definition copyFor :: "employee \<Rightarrow> ctx" where
  "copyFor emp =
     \<lparr>employee = emp\<lparr>tasks := Some [], accounts := Some (or_empty (accounts emp)),
                       hardware := Some (or_empty (hardware emp))\<rparr>,
      hrPerception = None, itPerception = None, trainingPerception = None,
      buddyPerception = None\<rparr>"

definition agentNames :: "string list" where
  "agentNames = [''hr'', ''it'', ''training'', ''buddy'']"

text \<open>The callback of \<^verbatim>\<open>results.forEach\<close> on the merged tasks, the agent logs and the
  shared employee.\<close>

fun merge_result :: "(js_error + ctx \<times> log_entry list) \<times> string
    \<Rightarrow> task list \<times> (string \<times> log_entry list) list \<times> employee
    \<Rightarrow> task list \<times> (string \<times> log_entry list) list \<times> employee" where
  "merge_result (Inr (c, lg), nm) (mergedTasks, logs, emp) =
     (mergedTasks @ or_empty (tasks (employee c)), assign_key nm lg logs,
      Object_assign emp (employee c))"
| "merge_result (Inl err, nm) (mergedTasks, logs, emp) =
     (mergedTasks,
      assign_key nm [\<lparr>timestamp = None, agent_l = nm, action = ''error'', detail = message err\<rparr>] logs,
      emp)"

text \<open>\<^verbatim>\<open>buildSummary\<close>, called on the employee whose task array \<^verbatim>\<open>onboard\<close> has just
  set.\<close>

definition summarize_agent :: "log_entry list \<Rightarrow> agent_summary" where
  "summarize_agent logs =
     \<lparr>totalActions = length logs,
      status_s = (if list_ex (\<lambda>l. action l = ''error'') logs then ''error'' else ''success''),
      keyEvents = map detail (filter (\<lambda>l. action l \<notin> set [''start'', ''complete'']) logs)\<rparr>"

definition buildSummary :: "employee \<Rightarrow> (string \<times> log_entry list) list \<Rightarrow> int \<Rightarrow> int \<Rightarrow> summary" where
  "buildSummary emp logs t0 now =
     (let ts = or_empty (tasks emp)
      in \<lparr>employeeName = to_string (getp (firstName emp)) @ '' '' @ to_string (getp (lastName emp)),
          department_s = getp (department emp),
          totalTasks = length ts,
          completed = length (filter (\<lambda>t. status t = ''completed'') ts),
          inProgress = length (filter (\<lambda>t. status t = ''in_progress'') ts),
          pending = length (filter (\<lambda>t. status t = ''pending'') ts),
          orchestrationTimeMs = now - t0,
          agentSummaries = map (\<lambda>(nm, lg). (nm, summarize_agent lg)) logs\<rparr>)"

text \<open>The four promises handed to \<^verbatim>\<open>Promise.allSettled\<close>, each run on its own copy of
  the context.\<close>

definition agent_runs :: "orchestrator \<Rightarrow> employee \<Rightarrow> ((js_error + ctx \<times> log_entry list) \<times> agent) list" where
  "agent_runs orch emp =
     [run (hr_agent orch) (copyFor emp), run (it_agent orch) (copyFor emp),
      run (training_agent orch) (copyFor emp), run (buddy_agent orch) (copyFor emp)]"

text \<open>\<^verbatim>\<open>onboard\<close>: the plan it resolves with and the orchestrator after the call. The
  log arrays of the plan are the agents' own arrays; the plan holds their content at
  the time of the return.\<close>

definition onboard :: "orchestrator \<Rightarrow> env \<Rightarrow> nat list \<Rightarrow> employee \<Rightarrow> (plan \<times> orchestrator) option" where
  "onboard orch ev order employeeData =
     (let emp0 = shared_employee ev employeeData;
          runs = agent_runs orch emp0
      in case allSettled order (map fst runs) of
           None \<Rightarrow> None
         | Some results \<Rightarrow>
             (case fold merge_result (zip results agentNames) ([], [], emp0) of
                (mergedTasks, logs, emp1) \<Rightarrow>
                  (let emp2 = emp1\<lparr>tasks := Some mergedTasks\<rparr>
                   in Some (\<lparr>employee_p = emp2,
                             summary_p = buildSummary emp2 logs (startTime ev) (endTime ev),
                             agentLogs = logs,
                             timeline = buildTimeline mergedTasks\<rparr>,
                            \<lparr>hr_agent = snd (runs ! 0), it_agent = snd (runs ! 1),
                             training_agent = snd (runs ! 2), buddy_agent = snd (runs ! 3)\<rparr>))))"

section \<open>Agent objects in any state\<close>

text \<open>
  The objects of a class after any number of runs: \<^verbatim>\<open>run\<close> changes the status, the log
  and the call history, and nothing else.
\<close>

definition is_HRAgent :: "agent \<Rightarrow> bool" where
  "is_HRAgent ag =
     (name ag = ''HR Agent'' \<and> perceive ag = hr_perceive \<and> decide ag = hr_decide
      \<and> act ag = hr_act (clock ag) ''HR Agent'' \<and> reflect ag = hr_reflect (clock ag) ''HR Agent'')"

definition is_ITSetupAgent :: "agent \<Rightarrow> bool" where
  "is_ITSetupAgent ag =
     (name ag = ''IT Setup Agent'' \<and> perceive ag = it_perceive \<and> decide ag = it_decide
      \<and> act ag = it_act (clock ag) ''IT Setup Agent''
      \<and> reflect ag = it_reflect (clock ag) ''IT Setup Agent'')"

definition is_TrainingAgent :: "agent \<Rightarrow> bool" where
  "is_TrainingAgent ag =
     (name ag = ''Training Agent'' \<and> perceive ag = tr_perceive \<and> decide ag = tr_decide
      \<and> act ag = tr_act (clock ag) ''Training Agent''
      \<and> reflect ag = tr_reflect (clock ag) ''Training Agent'')"

definition is_BuddyAgent :: "buddy_rec list \<Rightarrow> agent \<Rightarrow> bool" where
  "is_BuddyAgent buddyPool ag =
     (name ag = ''Buddy Agent'' \<and> perceive ag = bd_perceive buddyPool \<and> decide ag = bd_decide
      \<and> act ag = bd_act (clock ag) ''Buddy Agent''
      \<and> reflect ag = bd_reflect (clock ag) ''Buddy Agent'')"

text \<open>An orchestrator whose four agents are those its constructor installs, in any state.\<close>

definition is_Orchestrator :: "buddy_rec list \<Rightarrow> orchestrator \<Rightarrow> bool" where
  "is_Orchestrator buddyPool orch =
     (is_HRAgent (hr_agent orch) \<and> is_ITSetupAgent (it_agent orch)
      \<and> is_TrainingAgent (training_agent orch) \<and> is_BuddyAgent buddyPool (buddy_agent orch))"

section \<open>What one run of each agent does to an employee\<close>

text \<open>
  The functions of this section summarise a whole run; they are not code of the repository.
  The lemmas on the runs of the agents prove that \<^verbatim>\<open>run\<close> computes them.
\<close>

definition hr_missing :: "employee \<Rightarrow> doc_spec list" where
  "hr_missing emp =
     filter (\<lambda>doc. find (\<lambda>d. id_d d = id_s doc) (or_empty (documents emp)) = None) hr_requiredDocs"

definition hr_pendingPolicies :: "employee \<Rightarrow> string list" where
  "hr_pendingPolicies emp =
     filter (\<lambda>po. po \<notin> set (or_empty (policiesAcknowledged emp))) hr_policies"

definition hr_tasks :: "employee \<Rightarrow> task list" where
  "hr_tasks emp =
     map (hr_doc_task ''HR Agent'') (hr_missing emp)
     @ map (hr_policy_task ''HR Agent'') (hr_pendingPolicies emp)
     @ (if \<not> flag (benefitsEnrollmentStarted emp) then [hr_benefits_task ''HR Agent''] else [])"

definition hr_effect :: "employee \<Rightarrow> employee" where
  "hr_effect emp =
     emp\<lparr>benefitsEnrollmentStarted :=
           (if \<not> flag (benefitsEnrollmentStarted emp) then Some True
            else benefitsEnrollmentStarted emp),
         tasks := Some (or_empty (tasks emp) @ hr_tasks emp)\<rparr>"

definition it_neededSoftware :: "profile \<Rightarrow> employee \<Rightarrow> string list" where
  "it_neededSoftware pr emp = filter (\<lambda>s. s \<notin> set (or_empty (accounts emp))) (software pr)"

definition it_neededHardware :: "profile \<Rightarrow> employee \<Rightarrow> string list" where
  "it_neededHardware pr emp = filter (\<lambda>h. h \<notin> set (or_empty (hardware emp))) (hardware_p pr)"

definition it_tasks :: "profile \<Rightarrow> string \<Rightarrow> employee \<Rightarrow> task list" where
  "it_tasks pr addr emp =
     (if \<not> flag (emailProvisioned emp) then [it_email_task ''IT Setup Agent'' addr] else [])
     @ map (it_sw_task ''IT Setup Agent'') (it_neededSoftware pr emp)
     @ map (it_hw_task ''IT Setup Agent'') (it_neededHardware pr emp)
     @ map (it_access_task ''IT Setup Agent'') (access pr)"

definition it_effect :: "profile \<Rightarrow> string \<Rightarrow> employee \<Rightarrow> employee" where
  "it_effect pr addr emp =
     emp\<lparr>emailProvisioned :=
           (if \<not> flag (emailProvisioned emp) then Some True else emailProvisioned emp),
         email := (if \<not> flag (emailProvisioned emp) then Some (JStr addr) else email emp),
         accounts :=
           (if it_neededSoftware pr emp = [] then accounts emp
            else Some (or_empty (accounts emp) @ it_neededSoftware pr emp)),
         tasks := Some (or_empty (tasks emp) @ it_tasks pr addr emp)\<rparr>"

definition tr_pendingModules :: "module list \<Rightarrow> employee \<Rightarrow> module list" where
  "tr_pendingModules rms emp =
     filter (\<lambda>m. id_m m \<notin> set (or_empty (completedTraining emp))) (tr_companyWideModules @ rms)"

definition tr_tasks :: "module list \<Rightarrow> employee \<Rightarrow> task list" where
  "tr_tasks rms emp =
     map (tr_week1_task ''Training Agent'') (take 4 (tr_pendingModules rms emp))
     @ map (tr_week2_task ''Training Agent'') (drop 4 (tr_pendingModules rms emp))
     @ (if \<not> flag (managerMeetingScheduled emp) then [tr_manager_task ''Training Agent''] else [])
     @ (if \<not> flag (teamIntroScheduled emp) then [tr_team_task ''Training Agent''] else [])"

definition tr_effect :: "module list \<Rightarrow> employee \<Rightarrow> employee" where
  "tr_effect rms emp =
     emp\<lparr>managerMeetingScheduled :=
           (if \<not> flag (managerMeetingScheduled emp) then Some True
            else managerMeetingScheduled emp),
         teamIntroScheduled :=
           (if \<not> flag (teamIntroScheduled emp) then Some True else teamIntroScheduled emp),
         tasks := Some (or_empty (tasks emp) @ tr_tasks rms emp)\<rparr>"

text \<open>\<open>has_buddy\<close>: \<^verbatim>\<open>!!employee.buddy\<close>.\<close>

definition has_buddy :: "employee \<Rightarrow> bool" where
  "has_buddy emp = (case getp_buddy (buddy emp) of BRec b \<Rightarrow> True | _ \<Rightarrow> False)"

definition bd_tasks :: "buddy_rec \<Rightarrow> employee \<Rightarrow> task list" where
  "bd_tasks best emp =
     (if \<not> has_buddy emp then [bd_intro_task ''Buddy Agent'' best] else [])
     @ (if \<not> flag (checkInsScheduled emp)
        then map (bd_checkin_task ''Buddy Agent'') bd_checkIns else [])"

definition bd_effect :: "buddy_rec \<Rightarrow> employee \<Rightarrow> employee" where
  "bd_effect best emp =
     emp\<lparr>buddy := (if \<not> has_buddy emp then Some (BRec best) else buddy emp),
         checkInsScheduled :=
           (if \<not> flag (checkInsScheduled emp) then Some True else checkInsScheduled emp),
         tasks := Some (or_empty (tasks emp) @ bd_tasks best emp)\<rparr>"

text \<open>\<open>bd_ranked\<close>: \<^verbatim>\<open>scored\<close> after the sort, for a lowercased department.\<close>

definition bd_ranked :: "buddy_rec list \<Rightarrow> string \<Rightarrow> buddy_rec list" where
  "bd_ranked buddyPool dept = sort_by by_score (map (score_buddy dept) buddyPool)"

text \<open>The log with which \<^verbatim>\<open>run\<close> enters its loop.\<close>

definition start_log :: "agent \<Rightarrow> log_entry list" where
  "start_log ag =
     addLog (clock ag) (name ag) ''start'' (''Agent '' @ name ag @ '' starting'') (log_a ag)"

section \<open>The parts of the merge\<close>

text \<open>What the callback of \<^verbatim>\<open>results.forEach\<close> takes from one settled result: the tasks
  it appends, the log it files under the agent's key, and the overlay on the shared
  employee.\<close>

definition result_tasks :: "js_error + ctx \<times> log_entry list \<Rightarrow> task list" where
  "result_tasks r = (case r of Inr (c, lg) \<Rightarrow> or_empty (tasks (employee c)) | Inl err \<Rightarrow> [])"

definition result_log :: "string \<Rightarrow> js_error + ctx \<times> log_entry list \<Rightarrow> log_entry list" where
  "result_log nm r =
     (case r of
        Inr (c, lg) \<Rightarrow> lg
      | Inl err \<Rightarrow> [\<lparr>timestamp = None, agent_l = nm, action = ''error'', detail = message err\<rparr>])"

definition result_overlay :: "js_error + ctx \<times> log_entry list \<Rightarrow> employee \<Rightarrow> employee" where
  "result_overlay r emp = (case r of Inr (c, lg) \<Rightarrow> Object_assign emp (employee c) | Inl err \<Rightarrow> emp)"

definition fulfilled :: "js_error + 'a \<Rightarrow> bool" where
  "fulfilled r = (case r of Inr v \<Rightarrow> True | Inl err \<Rightarrow> False)"

text \<open>The settled results of the four runs of one call, in the order of the agents.\<close>

definition settled_results :: "orchestrator \<Rightarrow> env \<Rightarrow> employee \<Rightarrow> (js_error + ctx \<times> log_entry list) list" where
  "settled_results orch ev employeeData =
     map fst (agent_runs orch (shared_employee ev employeeData))"

definition agents_of :: "orchestrator \<Rightarrow> agent list" where
  "agents_of orch = [hr_agent orch, it_agent orch, training_agent orch, buddy_agent orch]"

text \<open>An agent whose methods only ever append to the log they are given.\<close>

definition append_only :: "agent \<Rightarrow> bool" where
  "append_only ag =
     (\<forall>c lg acts.
        (\<exists>new. snd (perceive ag c lg) = lg @ new) \<and> (\<exists>new. snd (decide ag c lg) = lg @ new)
        \<and> (\<exists>new. snd (act ag c acts lg) = lg @ new) \<and> (\<exists>new. snd (reflect ag c lg) = lg @ new))"

section \<open>Buddy scores\<close>

text \<open>The score \<^verbatim>\<open>perceive\<close> gives a pool member, for the lowercased department of the
  employee.\<close>

definition scored :: "string \<Rightarrow> buddy_rec \<Rightarrow> rat" where
  "scored dept b = (if department_b b = dept then js_add (rating b) 3 else rating b)"

text \<open>The scoring rule in the words of the specification: the bonus goes to a candidate
  whose department equals the employee's department, case-insensitively.\<close>

definition spec_scored :: "string \<Rightarrow> buddy_rec \<Rightarrow> rat" where
  "spec_scored employee_department b =
     (if toLowerCase (department_b b) = toLowerCase employee_department
      then js_add (rating b) 3 else rating b)"

section \<open>Agents that differ in their state only\<close>

text \<open>Two agent objects whose methods return the same value or error whatever the logs
  they are given.\<close>

definition same_methods :: "agent \<Rightarrow> agent \<Rightarrow> bool" where
  "same_methods ag ag' =
     (\<forall>c lg lg' acts.
        fst (perceive ag c lg) = fst (perceive ag' c lg')
        \<and> fst (decide ag c lg) = fst (decide ag' c lg')
        \<and> fst (act ag c acts lg) = fst (act ag' c acts lg')
        \<and> fst (reflect ag c lg) = fst (reflect ag' c lg'))"

text \<open>The settled value of a run without the log: the returned context or the error.\<close>

definition outcome :: "js_error + ctx \<times> log_entry list \<Rightarrow> js_error + ctx" where
  "outcome r = (case r of Inl err \<Rightarrow> Inl err | Inr (c, lg) \<Rightarrow> Inr c)"

section \<open>Iterations of the agent loop\<close>

text \<open>
  The state of the loop after \<open>k\<close> iterations each of which ran all four phases without a
  throw, with actions decided and a reflection that did not report completion: the context,
  the log and the call history with which iteration \<open>k\<close> starts. \<open>None\<close> when the loop
  is left earlier.
\<close>

fun rounds :: "agent \<Rightarrow> nat \<Rightarrow> ctx \<Rightarrow> log_entry list \<Rightarrow> phase list
    \<Rightarrow> (ctx \<times> log_entry list \<times> phase list) option" where
  "rounds ag 0 c lg tr = Some (c, lg, tr)"
| "rounds ag (Suc k) c lg tr =
     (case perceive ag c lg of
        (Inl err, lg1) \<Rightarrow> None
      | (Inr perceivedCtx, lg1) \<Rightarrow>
          (case decide ag perceivedCtx lg1 of
             (Inl err, lg2) \<Rightarrow> None
           | (Inr actions, lg2) \<Rightarrow>
               if length actions = 0 then None
               else
                 (case act ag perceivedCtx actions lg2 of
                    (Inl err, lg3) \<Rightarrow> None
                  | (Inr c1, lg3) \<Rightarrow>
                      (case reflect ag c1 lg3 of
                         (Inl err, lg4) \<Rightarrow> None
                       | (Inr (is_complete, c2), lg4) \<Rightarrow>
                           if is_complete then None
                           else rounds ag k c2 lg4 (tr @ [Perceive, Decide, Act, Reflect])))))"
section \<open>Example inputs\<close>

definition task0 :: task where
  "task0 = \<lparr>id_t = ''t0'', agent = ''HR Agent'', type_t = ''document_upload'', title = ''Due today'',
     status = ''pending'', priority = ''high'', dueInDays = Some 0, category = ''HR Documents'',
     note_t = None, metadata = None\<rparr>"

definition task2 :: task where
  "task2 = task0\<lparr>id_t := ''t2'', title := ''Due in two days'', dueInDays := Some 2\<rparr>"

definition task3 :: task where
  "task3 = task0\<lparr>id_t := ''t3'', title := ''Due in three days'', dueInDays := Some 3\<rparr>"


text \<open>A profile with every field the classifier scores except the start date.\<close>

definition profile0 :: employee where
  "profile0 = \<lparr>firstName = Some (JStr ''Ana''), lastName = Some (JStr ''Lopez''),
     email = Some (JStr ''ana@company.com''), department = Some (JStr ''engineering''),
     role = Some (JStr ''Engineer''), startDate = None, manager = Some (JStr ''Kim''),
     location = Some (JStr ''remote''), documents = None, accounts = None, hardware = None,
     tasks = None, policiesAcknowledged = None, completedTraining = None, buddy = None,
     emailProvisioned = None, benefitsEnrollmentStarted = None, checkInsScheduled = None,
     managerMeetingScheduled = None, teamIntroScheduled = None, onboardingStarted = None\<rparr>"

definition profile1 :: employee where
  "profile1 = profile0\<lparr>email := None, manager := Some (JStr [])\<rparr>"

text \<open>Time values of two date strings, 20 days apart; every other value is an invalid date.\<close>

fun date_ms0 :: "jsval \<Rightarrow> int option" where
  "date_ms0 (JStr s) =
     (if s = ''1970-01-01'' then Some 0
      else if s = ''1970-01-21'' then Some (20 * 86400000) else None)"
| "date_ms0 v = None"


text \<open>Clock readings for the examples, and an employee the Buddy agent has nothing to do
  for.\<close>

definition clock0 :: "nat \<Rightarrow> string" where
  "clock0 k = ''T'' @ string_of_nat k"

definition sarah :: buddy_rec where
  "sarah = \<lparr>id_b = ''b1'', name_b = ''Sarah Chen'', department_b = ''engineering'',
     seniority = ''senior'', rating = round_double (49 / 10), score = None\<rparr>"

definition settled0 :: employee where
  "settled0 = profile0\<lparr>buddy := Some (BRec sarah), checkInsScheduled := Some True\<rparr>"

text \<open>
  The employee object that the route hands to \<^verbatim>\<open>onboard\<close> for the request body
  \<^verbatim>\<open>{firstName: "Ana", lastName: "Lopez", department: "engineering"}\<close>: the store fills
  in the other fields, among them \<^verbatim>\<open>email: null\<close> and \<^verbatim>\<open>buddy: null\<close>.
\<close>

definition ana :: employee where
  "ana = \<lparr>firstName = Some (JStr ''Ana''), lastName = Some (JStr ''Lopez''),
     email = Some JNull, department = Some (JStr ''engineering''),
     role = Some (JStr []), startDate = Some (JStr ''2026-11-02''), manager = Some (JStr []),
     location = Some (JStr ''Remote''), documents = Some [], accounts = Some [],
     hardware = Some [], tasks = Some [], policiesAcknowledged = Some [],
     completedTraining = Some [], buddy = Some BNull,
     emailProvisioned = None, benefitsEnrollmentStarted = None, checkInsScheduled = None,
     managerMeetingScheduled = None, teamIntroScheduled = None, onboardingStarted = None\<rparr>"

definition env0 :: env where
  "env0 = \<lparr>started = ''2026-11-02T09:00:00.000Z'', startTime = 1000, endTime = 1004\<rparr>"

text \<open>The orchestrator of the route, and one whose Buddy agent has an empty pool.\<close>

definition orch0 :: orchestrator where
  "orch0 = new_Orchestrator clock0 clock0 clock0 clock0 buddyPool0"

definition orch_nobuddy :: orchestrator where
  "orch_nobuddy = new_Orchestrator clock0 clock0 clock0 clock0 []"

text \<open>The task ids of the plan for \<open>ana\<close>, in merge order.\<close>

definition ana_ids :: "string list" where
  "ana_ids =
     [''hr-doc-government_id'', ''hr-doc-tax_w4'', ''hr-doc-i9_form'', ''hr-doc-direct_deposit'',
      ''hr-doc-emergency_contact'', ''hr-doc-nda'', ''hr-policy-code_of_conduct'',
      ''hr-policy-data_privacy'', ''hr-policy-remote_work'', ''hr-policy-anti_harassment'',
      ''hr-benefits-enrollment'',
      ''it-email-setup'', ''it-sw-ide-license'', ''it-sw-github-enterprise'', ''it-sw-jira'',
      ''it-sw-slack'', ''it-sw-aws-console'', ''it-hw-macbook-pro-16-'',
      ''it-hw-external-monitor-27-'', ''it-hw-mechanical-keyboard'', ''it-hw-usb-c-hub'',
      ''it-access-vpn'', ''it-access-ci-cd-pipeline'', ''it-access-staging-servers'',
      ''it-access-code-repositories'',
      ''training-company-overview'', ''training-security-awareness'', ''training-dei-training'',
      ''training-tools-intro'', ''training-eng-architecture'', ''training-eng-git-workflow'',
      ''training-eng-ci-cd'', ''training-eng-oncall'', ''training-manager-1on1'',
      ''training-team-intro'',
      ''buddy-intro-meeting'', ''buddy-checkin-day7'', ''buddy-checkin-day14'',
      ''buddy-checkin-day30'', ''buddy-checkin-day60'', ''buddy-checkin-day90'']"

text \<open>A pool of two whose engineering member has the department in title case.\<close>

definition eve :: buddy_rec where
  "eve = \<lparr>id_b = ''x1'', name_b = ''Eve Adams'', department_b = ''Engineering'',
     seniority = ''senior'', rating = round_double (49 / 10), score = None\<rparr>"

definition dan :: buddy_rec where
  "dan = \<lparr>id_b = ''x2'', name_b = ''Dan Brown'', department_b = ''design'',
     seniority = ''lead'', rating = 5, score = None\<rparr>"


definition hr_done :: employee where
  "hr_done = ana\<lparr>documents := Some (map (\<lambda>i. \<lparr>id_d = i\<rparr>)
                 [''nda'', ''government_id'', ''tax_w4'', ''i9_form'', ''direct_deposit'',
                  ''emergency_contact'']),
               policiesAcknowledged := Some [''code_of_conduct'', ''data_privacy'',
                 ''remote_work'', ''anti_harassment''],
               benefitsEnrollmentStarted := Some True\<rparr>"

definition it_done :: employee where
  "it_done = ana\<lparr>emailProvisioned := Some True,
               accounts := Some [''IDE License'', ''GitHub Enterprise'', ''Jira'', ''Slack'',
                 ''AWS Console''],
               hardware := Some [''MacBook Pro 16\"'', ''External Monitor 27\"'',
                 ''Mechanical Keyboard'', ''USB-C Hub'']\<rparr>"

definition tr_done :: employee where
  "tr_done = ana\<lparr>completedTraining := Some [''company-overview'', ''security-awareness'',
                 ''dei-training'', ''tools-intro'', ''eng-architecture'', ''eng-git-workflow'',
                 ''eng-ci-cd'', ''eng-oncall''],
               managerMeetingScheduled := Some True, teamIntroScheduled := Some True\<rparr>"

text \<open>An agent of a subclass whose reflection never reports completion and whose perceive
  throws once the employee has \<open>n\<close> tasks; every act adds one task.\<close>

definition flaky :: "nat \<Rightarrow> agent" where
  "flaky n =
     \<lparr>name = ''Flaky Agent'', clock = clock0, status_a = Idle, log_a = [], calls = [],
      perceive = (\<lambda>c lg. if n \<le> length (or_empty (tasks (employee c)))
                          then (Inl (TypeError ''flaky''), lg) else (Inr c, lg)),
      decide = (\<lambda>c lg. (Inr [Schedule_check_ins], lg)),
      act = (\<lambda>c actions lg. (Inr (c\<lparr>employee := push_tasks [task0] (employee c)\<rparr>), lg)),
      reflect = (\<lambda>c lg. (Inr (False, c), lg))\<rparr>"

text \<open>Two pool members whose ratings \<^verbatim>\<open>0.47\<close> and \<^verbatim>\<open>3.47\<close> differ by 3 as decimals;
  as doubles, the sum of the first with 3 is below the second.\<close>

definition lee :: buddy_rec where
  "lee = \<lparr>id_b = ''x3'', name_b = ''Lee Park'', department_b = ''engineering'',
     seniority = ''senior'', rating = round_double (47 / 100), score = None\<rparr>"

definition kim :: buddy_rec where
  "kim = \<lparr>id_b = ''x4'', name_b = ''Kim Diaz'', department_b = ''design'',
     seniority = ''senior'', rating = round_double (347 / 100), score = None\<rparr>"
section \<open>Evaluation of characters and numerals\<close>

lemma bit_Suc_0_0 [simp]: "bit (Suc 0) 0"
  by (simp add: bit_0)

lemma floor_rat_numeral [simp]: "\<lfloor>numeral a / numeral b :: rat\<rfloor> = numeral a div numeral b"
  using floor_divide_of_int_eq [of "numeral a" "numeral b", where ?'a = rat] by simp

lemmas eval_char = char_of_def lower_char_def upper_char_def toLowerCase_def is_space_def
  is_word_def is_quote_def is_slash_def replace_runs_def

lemmas eval_lower = lower_or_def opt_lower_def eval_char

declare ilog2.simps [simp del]

lemma ilog2_numeral [simp]:
  "ilog2 0 = 0" "ilog2 (Suc 0) = 0" "ilog2 1 = 0"
  "ilog2 (numeral k) = (if (numeral k :: nat) < 2 then 0 else Suc (ilog2 (numeral k div 2)))"
  by (simp_all add: ilog2.simps [of 0] ilog2.simps [of "Suc 0"] ilog2.simps [of "numeral k"])

lemma ceiling_rat_numeral [simp]:
  "\<lceil>numeral a / numeral b :: rat\<rceil> = - ((- numeral a) div numeral b)"
  using ceiling_divide_eq_div [of "numeral a" "numeral b", where ?'a = rat] by simp

lemmas eval_double = round_double_def exponent_def pow2_def round_even_def Let_def js_add_def
  js_sub_def is_double_def

text \<open>The doubles of the ratings in the pool, and their sums with 3.\<close>

lemma double_literals:
  "round_double (49 / 10) = 2758454771764429 / 562949953421312"
  "round_double (48 / 10) = 5404319552844595 / 1125899906842624"
  "round_double (47 / 10) = 5291729562160333 / 1125899906842624"
  "round_double (46 / 10) = 2589569785738035 / 562949953421312"
  "round_double (79 / 10) = 4447304632028365 / 562949953421312"
  by (simp_all add: eval_double)

lemma double_sums:
  "js_add (round_double (49 / 10)) 3 = round_double (79 / 10)"
  "js_add (round_double (48 / 10)) 3 = 8782019273372467 / 1125899906842624"
  "js_add 5 3 = 8"
  unfolding double_literals by (simp_all add: eval_double)

lemma double_ratings:
  "is_double (round_double (49 / 10))" "is_double (round_double (48 / 10))"
  "is_double (round_double (47 / 10))" "is_double (round_double (46 / 10))" "is_double 5"
  unfolding double_literals by (simp_all add: eval_double)

lemma double_hundredths:
  "round_double (47 / 100) = 2116691824864133 / 4503599627370496"
  "round_double (347 / 100) = 7813745353487811 / 2251799813685248"
  by (simp_all add: eval_double)

lemma double_sum_hundredths:
  "js_add (round_double (47 / 100)) 3 = 3906872676743905 / 1125899906842624"
  unfolding double_hundredths by (simp add: eval_double)

section \<open>Properties of the rounding\<close>

lemma pow2_powi: "pow2 e = 2 powi e"
  by (simp add: pow2_def power_int_def inverse_eq_divide power_one_over)

lemma pow2_pos [simp]: "0 < pow2 e"
  by (simp add: pow2_powi)

lemma pow2_mono: "e1 \<le> e2 \<Longrightarrow> pow2 e1 \<le> pow2 e2"
  by (simp add: pow2_powi power_int_increasing)

lemma pow2_grid:
  assumes "- 1074 \<le> e"
  shows "pow2 e = of_int (2 ^ nat (e + 1074)) / 2 ^ 1074"
proof -
  have "pow2 e = 2 powi ((e + 1074) + (- 1074))" by (simp add: pow2_powi)
  also have "\<dots> = 2 powi (e + 1074) * (2 :: rat) powi (- 1074)"
    by (rule power_int_add) simp
  also have "\<dots> = of_int (2 ^ nat (e + 1074)) / 2 ^ 1074"
    using assms by (simp add: power_int_def inverse_eq_divide power_one_over)
  finally show ?thesis .
qed

lemma ilog2_le: "1 \<le> n \<Longrightarrow> 2 ^ ilog2 n \<le> n"
proof (induction n rule: ilog2.induct)
  case (1 n)
  show ?case
  proof (cases "n < 2")
    case True
    with "1.prems" show ?thesis by (simp add: ilog2.simps [of n])
  next
    case False
    then have "1 \<le> n div 2" by simp
    from "1.IH" [OF False this] have "2 * 2 ^ ilog2 (n div 2) \<le> 2 * (n div 2)" by simp
    also have "\<dots> \<le> n" by simp
    finally show ?thesis using False by (simp add: ilog2.simps [of n])
  qed
qed

lemma ilog2_gt: "n < 2 ^ (ilog2 n + 1)"
proof (induction n rule: ilog2.induct)
  case (1 n)
  show ?case
  proof (cases "n < 2")
    case True
    then show ?thesis by (simp add: ilog2.simps [of n])
  next
    case False
    from "1.IH" [OF False] have "n div 2 + 1 \<le> 2 ^ (ilog2 (n div 2) + 1)" by simp
    then have "2 * (n div 2 + 1) \<le> 2 * 2 ^ (ilog2 (n div 2) + 1)" by simp
    moreover have "n < 2 * (n div 2 + 1)" by presburger
    ultimately show ?thesis using False by (simp add: ilog2.simps [of n])
  qed
qed

text \<open>The exponent is a lower bound.\<close>

lemma pow2_exponent_le:
  assumes "0 < a"
  shows "pow2 (exponent a) \<le> a"
proof (cases "1 \<le> a")
  case True
  then have n: "1 \<le> nat \<lfloor>a\<rfloor>" by (simp add: le_nat_iff)
  have "pow2 (exponent a) = of_nat (2 ^ ilog2 (nat \<lfloor>a\<rfloor>))"
    using True by (simp add: exponent_def pow2_def)
  also have "\<dots> \<le> of_nat (nat \<lfloor>a\<rfloor>)"
    using ilog2_le [OF n] by (simp only: of_nat_le_iff)
  also have "\<dots> = of_int \<lfloor>a\<rfloor>" using True by simp
  also have "\<dots> \<le> a" by (rule of_int_floor_le)
  finally show ?thesis .
next
  case False
  define k where "k = ilog2 (nat \<lceil>1 / a\<rceil> - 1)"
  have e: "pow2 (exponent a) = 1 / 2 ^ (k + 1)"
    using False by (simp add: exponent_def pow2_def k_def nat_add_distrib)
  from assms False have "1 < 1 / a" by simp
  then have c: "2 \<le> \<lceil>1 / a\<rceil>" by linarith
  from ilog2_gt [of "nat \<lceil>1 / a\<rceil> - 1"] have "nat \<lceil>1 / a\<rceil> - 1 < 2 ^ (k + 1)"
    by (simp add: k_def)
  with c have "nat \<lceil>1 / a\<rceil> \<le> 2 ^ (k + 1)" by simp
  then have "(of_nat (nat \<lceil>1 / a\<rceil>) :: rat) \<le> of_nat (2 ^ (k + 1))"
    by (simp only: of_nat_le_iff)
  with c have "(of_int \<lceil>1 / a\<rceil> :: rat) \<le> 2 ^ (k + 1)" by simp
  moreover have "1 / a \<le> of_int \<lceil>1 / a\<rceil>" by (rule le_of_int_ceiling)
  ultimately have "1 / a \<le> 2 ^ (k + 1)" by linarith
  with assms have "1 / 2 ^ (k + 1) \<le> a"
    by (simp add: field_simps)
  with e show ?thesis by simp
qed

lemma round_even_ge_floor: "\<lfloor>x\<rfloor> \<le> round_even x"
  by (simp add: round_even_def Let_def)

lemma round_double_minus: "round_double (- x) = - round_double x"
  by (simp add: round_double_def Let_def)

text \<open>Every double is a multiple of the least positive one, and so is the difference of
  two doubles.\<close>

lemma round_double_grid: "\<exists>k :: int. round_double x = of_int k / 2 ^ 1074"
proof (cases "x = 0")
  case True
  then show ?thesis by (intro exI [of _ 0]) (simp add: round_double_def)
next
  case False
  define e where "e = max (exponent \<bar>x\<bar>) (- 1022) - 52"
  define m where "m = round_even (\<bar>x\<bar> / pow2 e)"
  have "- 1074 \<le> e" by (simp add: e_def)
  from pow2_grid [OF this] have q: "pow2 e = of_int (2 ^ nat (e + 1074)) / 2 ^ 1074" .
  have "round_double x = sgn x * of_int m * pow2 e"
    using False by (simp add: round_double_def Let_def e_def m_def)
  also have "sgn x = of_int (sgn (if 0 < x then 1 else - 1))"
    using False by (simp add: sgn_if)
  finally have "round_double x
      = of_int (sgn (if 0 < x then 1 else - 1) * m * 2 ^ nat (e + 1074)) / 2 ^ 1074"
    unfolding q by simp
  then show ?thesis by blast
qed

lemma is_double_grid: "is_double x \<Longrightarrow> \<exists>k :: int. x = of_int k / 2 ^ 1074"
  using round_double_grid [of x] by (simp add: is_double_def)

lemma round_double_pos:
  assumes "0 < x" and "x = of_int k / 2 ^ 1074"
  shows "0 < round_double x"
proof -
  define e where "e = max (exponent \<bar>x\<bar>) (- 1022) - 52"
  from assms have k: "1 \<le> k" by (simp add: zero_less_divide_iff)
  have "pow2 e \<le> x"
  proof (cases "exponent x \<le> - 1022")
    case True
    with assms(1) have "e = - 1074" by (simp add: e_def)
    then have "pow2 e = 1 / 2 ^ 1074" by (simp add: pow2_def)
    also have "\<dots> \<le> of_int k / 2 ^ 1074"
      using k by (simp add: divide_le_cancel)
    finally show ?thesis using assms(2) by simp
  next
    case False
    with assms(1) have "e \<le> exponent x" by (simp add: e_def)
    then have "pow2 e \<le> pow2 (exponent x)" by (rule pow2_mono)
    also have "\<dots> \<le> x" by (rule pow2_exponent_le [OF assms(1)])
    finally show ?thesis .
  qed
  then have "1 \<le> x / pow2 e" by (simp add: le_divide_eq)
  then have "1 \<le> \<lfloor>x / pow2 e\<rfloor>" by (simp add: le_floor_iff)
  with round_even_ge_floor [of "x / pow2 e"] have "1 \<le> round_even (x / pow2 e)" by linarith
  then have "0 < (of_int (round_even (x / pow2 e)) :: rat) * pow2 e"
    by (simp add: zero_less_mult_iff)
  with assms(1) show ?thesis
    by (simp add: round_double_def Let_def e_def)
qed

lemma round_double_nonneg:
  assumes "0 \<le> y"
  shows "0 \<le> round_double y"
proof (cases "y = 0")
  case True
  then show ?thesis by (simp add: round_double_def)
next
  case False
  with assms have y: "0 < y" by simp
  define q where "q = pow2 (max (exponent \<bar>y\<bar>) (- 1022) - 52)"
  have q: "0 < q" by (simp add: q_def)
  with y have "0 \<le> y / q" by (intro divide_nonneg_pos) simp_all
  then have "0 \<le> \<lfloor>y / q\<rfloor>" by (simp add: zero_le_floor)
  with round_even_ge_floor [of "y / q"] have "0 \<le> round_even (y / q)" by linarith
  then have "(0 :: rat) \<le> of_int (round_even (y / q))" by simp
  with q have "0 \<le> (of_int (round_even (y / q)) :: rat) * q"
    by (intro mult_nonneg_nonneg) simp_all
  moreover have "round_double y = of_int (round_even (y / q)) * q"
    using y by (simp add: round_double_def Let_def q_def)
  ultimately show ?thesis by simp
qed

lemma round_double_nonpos:
  assumes "x \<le> 0"
  shows "round_double x \<le> 0"
  using round_double_nonneg [of "- x"] assms by (simp add: round_double_minus)

text \<open>The difference of two doubles, rounded, has the sign of the exact difference.\<close>

lemma js_sub_pos_iff:
  assumes "x = of_int k / 2 ^ 1074" and "y = of_int l / 2 ^ 1074"
  shows "(0 < js_sub x y) = (y < x)"
proof (cases "y < x")
  case True
  have "x - y = of_int (k - l) / 2 ^ 1074"
    unfolding assms by (simp add: diff_divide_distrib)
  from round_double_pos [OF _ this] True show ?thesis by (simp add: js_sub_def)
next
  case False
  then have "x - y \<le> 0" by simp
  from round_double_nonpos [OF this] False show ?thesis by (simp add: js_sub_def)
qed
section \<open>Properties of the timeline builder\<close>

lemma map_of_push_bucket:
  "map_of (push_bucket b e kvs) k =
     (if k = b then Some ((case map_of kvs b of None \<Rightarrow> [] | Some es \<Rightarrow> es) @ [e])
      else map_of kvs k)"
  by (induction kvs) (auto split: option.splits)

lemma keys_push_bucket: "fst ` set (push_bucket b e kvs) = insert b (fst ` set kvs)"
proof (induction kvs)
  case Nil show ?case by simp
next
  case (Cons kv kvs)
  obtain k es where kv: "kv = (k, es)" by (cases kv)
  show ?case using Cons.IH by (cases "k = b") (simp_all add: kv insert_commute)
qed

lemma distinct_push_bucket:
  "distinct (map fst kvs) \<Longrightarrow> distinct (map fst (push_bucket b e kvs))"
proof (induction kvs)
  case Nil show ?case by simp
next
  case (Cons kv kvs)
  obtain k es where kv: "kv = (k, es)" by (cases kv)
  show ?case using Cons by (cases "k = b") (simp_all add: kv keys_push_bucket)
qed

lemma map_of_fold_push:
  "map_of (fold (\<lambda>t acc. push_bucket (bucket t) (entry_of t) acc) ts acc) k =
     (case map_of acc k of
        None \<Rightarrow> (if \<exists>t\<in>set ts. bucket t = k
                  then Some (map entry_of (filter (\<lambda>t. bucket t = k) ts)) else None)
      | Some es \<Rightarrow> Some (es @ map entry_of (filter (\<lambda>t. bucket t = k) ts)))"
proof (induction ts arbitrary: acc)
  case Nil
  then show ?case by (simp split: option.splits)
next
  case (Cons t ts)
  show ?case
    by (simp add: Cons.IH map_of_push_bucket split: option.splits)
qed

lemma distinct_fold_push:
  "distinct (map fst acc) \<Longrightarrow>
   distinct (map fst (fold (\<lambda>t acc. push_bucket (bucket t) (entry_of t) acc) ts acc))"
  by (induction ts arbitrary: acc) (simp_all add: distinct_push_bucket)

lemma bucket_Immediate:
  "(bucket t = ''Immediate'') = (dueInDays t = None \<or> dueInDays t = Some 0)"
  by (simp add: bucket_def split: option.splits)

lemma bucket_Day:
  "(bucket t = ''Day 1-3'') = (\<exists>d. dueInDays t = Some d \<and> 1 \<le> d \<and> d \<le> 3)"
  by (auto simp: bucket_def split: option.splits)

lemma bucket_Week1:
  "(bucket t = ''Week 1'') = (\<exists>d. dueInDays t = Some d \<and> 4 \<le> d \<and> d \<le> 7)"
  by (auto simp: bucket_def split: option.splits)

lemma bucket_Week2:
  "(bucket t = ''Week 2'') = (\<exists>d. dueInDays t = Some d \<and> 8 \<le> d \<and> d \<le> 14)"
  by (auto simp: bucket_def split: option.splits)

lemma bucket_Month1:
  "(bucket t = ''Month 1'') = (\<exists>d. dueInDays t = Some d \<and> 15 \<le> d \<and> d \<le> 30)"
  by (auto simp: bucket_def split: option.splits)

lemma bucket_Month2:
  "(bucket t = ''Month 2-3'') = (\<exists>d. dueInDays t = Some d \<and> 30 < d)"
  by (auto simp: bucket_def split: option.splits)

lemma bucket_names:
  "bucket t \<in> {''Immediate'', ''Day 1-3'', ''Week 1'', ''Week 2'', ''Month 1'', ''Month 2-3''}"
  by (simp add: bucket_def split: option.splits)

text \<open>
  Claim C3, as stated, at a task with \<^verbatim>\<open>dueInDays: 0\<close>: the stated rule sends it to
  'Day 1-3' (0 is at most 3), the code sends it to 'Immediate' and leaves 'Day 1-3' without
  an entry.
\<close>

theorem buildTimeline_zero_counterexample:
  "dueInDays task0 = Some 0 \<and> spec_bucket task0 = ''Day 1-3''
   \<and> buildTimeline [task0] = [(''Immediate'', [entry_of task0])]
   \<and> map_of (buildTimeline [task0]) (spec_bucket task0) = None"
  by (simp add: task0_def spec_bucket_def buildTimeline_def bucket_def)

text \<open>
  Claim C3, amended: buildTimeline places every task in exactly one bucket, determined solely
  by its dueInDays. A task with no dueInDays or with dueInDays 0 goes to 'Immediate'; 1 to 3
  to 'Day 1-3'; 4 to 7 to 'Week 1'; 8 to 14 to 'Week 2'; 15 to 30 to 'Month 1'; above 30 to
  'Month 2-3'. The six conditions are exclusive and exhaustive, the bucket keys of the
  timeline are distinct, a bucket exists exactly when some task falls in it, and it holds the
  entries of exactly its tasks in the order of the input list.
\<close>

theorem buildTimeline_partition:
  "(\<forall>b. map_of (buildTimeline ts) b =
          (if \<exists>t\<in>set ts. bucket t = b
           then Some (map entry_of (filter (\<lambda>t. bucket t = b) ts)) else None))
   \<and> distinct (map fst (buildTimeline ts))
   \<and> (\<forall>t. bucket t \<in> {''Immediate'', ''Day 1-3'', ''Week 1'', ''Week 2'', ''Month 1'', ''Month 2-3''}
        \<and> (bucket t = ''Immediate'') = (dueInDays t = None \<or> dueInDays t = Some 0)
        \<and> (bucket t = ''Day 1-3'') = (\<exists>d. dueInDays t = Some d \<and> 1 \<le> d \<and> d \<le> 3)
        \<and> (bucket t = ''Week 1'') = (\<exists>d. dueInDays t = Some d \<and> 4 \<le> d \<and> d \<le> 7)
        \<and> (bucket t = ''Week 2'') = (\<exists>d. dueInDays t = Some d \<and> 8 \<le> d \<and> d \<le> 14)
        \<and> (bucket t = ''Month 1'') = (\<exists>d. dueInDays t = Some d \<and> 15 \<le> d \<and> d \<le> 30)
        \<and> (bucket t = ''Month 2-3'') = (\<exists>d. dueInDays t = Some d \<and> 30 < d))"
proof (intro conjI allI)
  fix b
  show "map_of (buildTimeline ts) b =
          (if \<exists>t\<in>set ts. bucket t = b
           then Some (map entry_of (filter (\<lambda>t. bucket t = b) ts)) else None)"
    unfolding buildTimeline_def by (simp add: map_of_fold_push)
next
  show "distinct (map fst (buildTimeline ts))"
    unfolding buildTimeline_def by (rule distinct_fold_push) simp
qed (rule bucket_names bucket_Immediate bucket_Day bucket_Week1 bucket_Week2 bucket_Month1
      bucket_Month2)+

theorem buildTimeline_partition_witness:
  "map_of (buildTimeline [task3, task0, task2]) ''Day 1-3'' = Some [entry_of task3, entry_of task2]
   \<and> map_of (buildTimeline [task3, task0, task2]) ''Immediate'' = Some [entry_of task0]
   \<and> map_of (buildTimeline [task3, task0, task2]) ''Week 1'' = None"
proof -
  have b: "bucket task3 = ''Day 1-3''" "bucket task2 = ''Day 1-3''" "bucket task0 = ''Immediate''"
    by (simp_all add: bucket_def task0_def task2_def task3_def)
  from buildTimeline_partition [of "[task3, task0, task2]"]
  have "\<forall>b. map_of (buildTimeline [task3, task0, task2]) b =
          (if \<exists>t\<in>set [task3, task0, task2]. bucket t = b
           then Some (map entry_of (filter (\<lambda>t. bucket t = b) [task3, task0, task2])) else None)"
    by blast
  then show ?thesis by (simp add: b)
qed

section \<open>Properties of the classifier\<close>

lemma risk_not_raisedI:
  "riskScore dm td e' \<le> riskScore dm td e \<Longrightarrow> risk_not_raised dm td e' e"
  by (auto simp: risk_not_raised_def classifyRisk_def Let_def split: if_splits)

text \<open>
  Claim C5, as stated, for the start date: a profile that lacks only the start date scores 1
  (low); the same profile with a start date ten days in the past scores 3 (medium).
\<close>

theorem riskScore_startDate_counterexample:
  "truthy (getp (startDate profile0)) = False
   \<and> riskScore date_ms0 (10 * 86400000) profile0 = 1
   \<and> riskScore date_ms0 (10 * 86400000) (profile0\<lparr>startDate := Some (JStr ''1970-01-01'')\<rparr>) = 3
   \<and> classifyRisk date_ms0 (10 * 86400000) profile0 = ''low''
   \<and> classifyRisk date_ms0 (10 * 86400000) (profile0\<lparr>startDate := Some (JStr ''1970-01-01'')\<rparr>)
       = ''medium''"
  by (simp add: profile0_def riskScore_def classifyRisk_def leadDays_def)

text \<open>
  Claim C5, amended: for every employee profile and each of the fields email, role,
  department, manager and location, adding a value for that one missing field while keeping
  every other field identical never increases the risk score and never raises the risk level;
  adding a start date to a profile without one never increases the score or the level when
  the date is at least 3 days ahead or is not a valid date.
\<close>

theorem riskScore_add_field:
  "(\<not> truthy (getp (email e)) \<longrightarrow> risk_not_raised dm td (e\<lparr>email := Some v\<rparr>) e)
   \<and> (\<not> truthy (getp (role e)) \<longrightarrow> risk_not_raised dm td (e\<lparr>role := Some v\<rparr>) e)
   \<and> (\<not> truthy (getp (department e)) \<longrightarrow> risk_not_raised dm td (e\<lparr>department := Some v\<rparr>) e)
   \<and> (\<not> truthy (getp (manager e)) \<longrightarrow> risk_not_raised dm td (e\<lparr>manager := Some v\<rparr>) e)
   \<and> (\<not> truthy (getp (location e)) \<longrightarrow> risk_not_raised dm td (e\<lparr>location := Some v\<rparr>) e)
   \<and> (\<not> truthy (getp (startDate e)) \<and> (\<forall>d. leadDays dm td v = Some d \<longrightarrow> 3 \<le> d)
        \<longrightarrow> risk_not_raised dm td (e\<lparr>startDate := Some v\<rparr>) e)"
proof (intro conjI impI)
  assume "\<not> truthy (getp (email e))"
  then show "risk_not_raised dm td (e\<lparr>email := Some v\<rparr>) e"
    by (intro risk_not_raisedI) (simp add: riskScore_def)
next
  assume "\<not> truthy (getp (role e))"
  then show "risk_not_raised dm td (e\<lparr>role := Some v\<rparr>) e"
    by (intro risk_not_raisedI) (simp add: riskScore_def)
next
  assume "\<not> truthy (getp (department e))"
  then show "risk_not_raised dm td (e\<lparr>department := Some v\<rparr>) e"
    by (intro risk_not_raisedI) (simp add: riskScore_def)
next
  assume "\<not> truthy (getp (manager e))"
  then show "risk_not_raised dm td (e\<lparr>manager := Some v\<rparr>) e"
    by (intro risk_not_raisedI) (simp add: riskScore_def)
next
  assume "\<not> truthy (getp (location e))"
  then show "risk_not_raised dm td (e\<lparr>location := Some v\<rparr>) e"
    by (intro risk_not_raisedI) (simp add: riskScore_def)
next
  assume "\<not> truthy (getp (startDate e)) \<and> (\<forall>d. leadDays dm td v = Some d \<longrightarrow> 3 \<le> d)"
  then show "risk_not_raised dm td (e\<lparr>startDate := Some v\<rparr>) e"
    by (intro risk_not_raisedI) (auto simp: riskScore_def split: option.splits)
qed

theorem riskScore_add_field_witness:
  "truthy (getp (email profile1)) = False \<and> truthy (getp (manager profile1)) = False
   \<and> truthy (getp (startDate profile1)) = False
   \<and> leadDays date_ms0 (10 * 86400000) (JStr ''1970-01-21'') = Some 10
   \<and> riskScore date_ms0 (10 * 86400000) (profile1\<lparr>email := Some (JStr ''ana@company.com'')\<rparr>)
       \<le> riskScore date_ms0 (10 * 86400000) profile1
   \<and> riskScore date_ms0 (10 * 86400000) (profile1\<lparr>manager := Some (JStr ''Kim'')\<rparr>)
       \<le> riskScore date_ms0 (10 * 86400000) profile1
   \<and> riskScore date_ms0 (10 * 86400000) (profile1\<lparr>startDate := Some (JStr ''1970-01-21'')\<rparr>)
       \<le> riskScore date_ms0 (10 * 86400000) profile1"
proof -
  have m: "\<not> truthy (getp (email profile1))" "\<not> truthy (getp (manager profile1))"
    "\<not> truthy (getp (startDate profile1))"
    by (simp_all add: profile1_def profile0_def)
  have l: "leadDays date_ms0 (10 * 86400000) (JStr ''1970-01-21'') = Some 10"
    by (simp add: leadDays_def)
  from riskScore_add_field [of profile1 date_ms0 "10 * 86400000" "JStr ''ana@company.com''"] m
  have 1: "risk_not_raised date_ms0 (10 * 86400000)
             (profile1\<lparr>email := Some (JStr ''ana@company.com'')\<rparr>) profile1"
    by blast
  from riskScore_add_field [of profile1 date_ms0 "10 * 86400000" "JStr ''Kim''"] m
  have 2: "risk_not_raised date_ms0 (10 * 86400000)
             (profile1\<lparr>manager := Some (JStr ''Kim'')\<rparr>) profile1"
    by blast
  from riskScore_add_field [of profile1 date_ms0 "10 * 86400000" "JStr ''1970-01-21''"] m l
  have 3: "risk_not_raised date_ms0 (10 * 86400000)
             (profile1\<lparr>startDate := Some (JStr ''1970-01-21'')\<rparr>) profile1"
    by simp
  from 1 2 3 m l show ?thesis
    unfolding risk_not_raised_def by blast
qed

section \<open>Properties of the agent loop\<close>

declare run_loop.simps [simp del]

declare string_of_nat.simps [simp del]

lemma run_loop_exhausted:
  "\<not> i < MAX_ITERATIONS \<Longrightarrow> run_loop ag i c lg tr = (Inr c, lg, tr)"
  by (simp add: run_loop.simps [of ag i])

lemma run_loop_perceive_throws:
  "i < MAX_ITERATIONS \<Longrightarrow> perceive ag c lg = (Inl err, lg1) \<Longrightarrow>
   run_loop ag i c lg tr = (Inl err, lg1, tr @ [Perceive])"
  by (simp add: run_loop.simps [of ag i])

lemma run_loop_decide_throws:
  "i < MAX_ITERATIONS \<Longrightarrow> perceive ag c lg = (Inr pc, lg1) \<Longrightarrow>
   decide ag pc lg1 = (Inl err, lg2) \<Longrightarrow>
   run_loop ag i c lg tr = (Inl err, lg2, tr @ [Perceive, Decide])"
  by (simp add: run_loop.simps [of ag i])

lemma run_loop_no_actions:
  "i < MAX_ITERATIONS \<Longrightarrow> perceive ag c lg = (Inr pc, lg1) \<Longrightarrow>
   decide ag pc lg1 = (Inr [], lg2) \<Longrightarrow>
   run_loop ag i c lg tr =
     (Inr pc, addLog (clock ag) (name ag) ''no-actions'' ''No further actions required'' lg2,
      tr @ [Perceive, Decide])"
  by (simp add: run_loop.simps [of ag i])

lemma run_loop_act_throws:
  "i < MAX_ITERATIONS \<Longrightarrow> perceive ag c lg = (Inr pc, lg1) \<Longrightarrow>
   decide ag pc lg1 = (Inr actions, lg2) \<Longrightarrow> actions \<noteq> [] \<Longrightarrow>
   act ag pc actions lg2 = (Inl err, lg3) \<Longrightarrow>
   run_loop ag i c lg tr = (Inl err, lg3, tr @ [Perceive, Decide, Act])"
  by (simp add: run_loop.simps [of ag i])

lemma run_loop_reflect_throws:
  "i < MAX_ITERATIONS \<Longrightarrow> perceive ag c lg = (Inr pc, lg1) \<Longrightarrow>
   decide ag pc lg1 = (Inr actions, lg2) \<Longrightarrow> actions \<noteq> [] \<Longrightarrow>
   act ag pc actions lg2 = (Inr c1, lg3) \<Longrightarrow> reflect ag c1 lg3 = (Inl err, lg4) \<Longrightarrow>
   run_loop ag i c lg tr = (Inl err, lg4, tr @ [Perceive, Decide, Act, Reflect])"
  by (simp add: run_loop.simps [of ag i])

lemma run_loop_complete:
  "i < MAX_ITERATIONS \<Longrightarrow> perceive ag c lg = (Inr pc, lg1) \<Longrightarrow>
   decide ag pc lg1 = (Inr actions, lg2) \<Longrightarrow> actions \<noteq> [] \<Longrightarrow>
   act ag pc actions lg2 = (Inr c1, lg3) \<Longrightarrow> reflect ag c1 lg3 = (Inr (True, c2), lg4) \<Longrightarrow>
   run_loop ag i c lg tr = (Inr c2, lg4, tr @ [Perceive, Decide, Act, Reflect])"
  by (simp add: run_loop.simps [of ag i])

lemma run_loop_continue:
  "i < MAX_ITERATIONS \<Longrightarrow> perceive ag c lg = (Inr pc, lg1) \<Longrightarrow>
   decide ag pc lg1 = (Inr actions, lg2) \<Longrightarrow> actions \<noteq> [] \<Longrightarrow>
   act ag pc actions lg2 = (Inr c1, lg3) \<Longrightarrow> reflect ag c1 lg3 = (Inr (False, c2), lg4) \<Longrightarrow>
   run_loop ag i c lg tr = run_loop ag (i + 1) c2 lg4 (tr @ [Perceive, Decide, Act, Reflect])"
  by (simp add: run_loop.simps [of ag i])

lemma run_fulfilled:
  "run_loop ag 0 c
     (addLog (clock ag) (name ag) ''start'' (''Agent '' @ name ag @ '' starting'') (log_a ag))
     (calls ag) = (Inr c', lg', tr') \<Longrightarrow>
   run ag c =
     (Inr (c', addLog (clock ag) (name ag) ''complete''
                 (''Agent '' @ name ag @ '' finished successfully'') lg'),
      ag\<lparr>status_a := Completed,
         log_a := addLog (clock ag) (name ag) ''complete''
                    (''Agent '' @ name ag @ '' finished successfully'') lg',
         calls := tr'\<rparr>)"
  by (simp add: run_def Let_def)

lemma run_rejected:
  "run_loop ag 0 c
     (addLog (clock ag) (name ag) ''start'' (''Agent '' @ name ag @ '' starting'') (log_a ag))
     (calls ag) = (Inl err, lg', tr') \<Longrightarrow>
   run ag c =
     (Inl err,
      ag\<lparr>status_a := Error, log_a := addLog (clock ag) (name ag) ''error'' (message err) lg',
         calls := tr'\<rparr>)"
  by (simp add: run_def Let_def)

lemma run_loop_calls:
  "run_loop ag i c lg tr = (r, lg', tr') \<Longrightarrow>
   \<exists>new. tr' = tr @ new \<and> (\<forall>p. count_list new p \<le> MAX_ITERATIONS - i)"
proof (induction ag i c lg tr arbitrary: r lg' tr' rule: run_loop.induct)
  case (1 ag i c lg tr)
  show ?case
  proof (cases "i < MAX_ITERATIONS")
    case False
    with "1.prems" show ?thesis by (simp add: run_loop.simps [of ag i])
  next
    case True
    then have pos: "1 \<le> MAX_ITERATIONS - i" by simp
    obtain r1 lg1 where p: "perceive ag c lg = (r1, lg1)" by (cases "perceive ag c lg")
    show ?thesis
    proof (cases r1)
      case (Inl err)
      with "1.prems" True p pos show ?thesis
        by (auto simp: run_loop.simps [of ag i])
    next
      case (Inr pc)
      obtain r2 lg2 where d: "decide ag pc lg1 = (r2, lg2)" by (cases "decide ag pc lg1")
      show ?thesis
      proof (cases r2)
        case (Inl err)
        with "1.prems" True p Inr d pos show ?thesis
          by (auto simp: run_loop.simps [of ag i])
      next
        case actions: (Inr actions)
        show ?thesis
        proof (cases "length actions = 0")
          case True
          with "1.prems" \<open>i < MAX_ITERATIONS\<close> p Inr d actions pos show ?thesis
            by (auto simp: run_loop.simps [of ag i])
        next
          case nonempty: False
          obtain r3 lg3 where a: "act ag pc actions lg2 = (r3, lg3)"
            by (cases "act ag pc actions lg2")
          show ?thesis
          proof (cases r3)
            case (Inl err)
            with "1.prems" True p Inr d actions nonempty a pos show ?thesis
              by (auto simp: run_loop.simps [of ag i])
          next
            case c1: (Inr c1)
            obtain r4 lg4 where rf: "reflect ag c1 lg3 = (r4, lg4)"
              by (cases "reflect ag c1 lg3")
            show ?thesis
            proof (cases r4)
              case (Inl err)
              with "1.prems" True p Inr d actions nonempty a c1 rf pos show ?thesis
                by (auto simp: run_loop.simps [of ag i])
            next
              case res: (Inr res)
              obtain fin c2 where res2: "res = (fin, c2)" by (cases res)
              show ?thesis
              proof (cases fin)
                case True
                with "1.prems" \<open>i < MAX_ITERATIONS\<close> p Inr d actions nonempty a c1 rf res res2 pos
                show ?thesis
                  by (auto simp: run_loop.simps [of ag i])
              next
                case False
                with "1.prems" \<open>i < MAX_ITERATIONS\<close> p Inr d actions nonempty a c1 rf res res2
                have rec: "run_loop ag (i + 1) c2 lg4 (tr @ [Perceive, Decide, Act, Reflect])
                             = (r, lg', tr')"
                  by (simp add: run_loop.simps [of ag i])
                from "1.IH" [OF \<open>i < MAX_ITERATIONS\<close> p [symmetric] Inr d [symmetric] actions
                    nonempty a [symmetric] c1 rf [symmetric] res res2 [symmetric] _ rec] False
                obtain new where new: "tr' = (tr @ [Perceive, Decide, Act, Reflect]) @ new"
                  "\<forall>p. count_list new p \<le> MAX_ITERATIONS - (i + 1)"
                  by auto
                have "\<forall>p. count_list ([Perceive, Decide, Act, Reflect] @ new) p \<le> MAX_ITERATIONS - i"
                proof
                  fix p
                  have "count_list [Perceive, Decide, Act, Reflect] p \<le> 1" by (cases p) simp_all
                  moreover have "count_list new p \<le> MAX_ITERATIONS - (i + 1)" using new(2) by blast
                  moreover have "count_list ([Perceive, Decide, Act, Reflect] @ new) p
                      = count_list [Perceive, Decide, Act, Reflect] p + count_list new p"
                    by (rule count_list_append)
                  ultimately show "count_list ([Perceive, Decide, Act, Reflect] @ new) p \<le> MAX_ITERATIONS - i"
                    using \<open>i < MAX_ITERATIONS\<close> by arith
                qed
                with new(1) show ?thesis by (intro exI [of _ "[Perceive, Decide, Act, Reflect] @ new"]) simp
              qed
            qed
          qed
        qed
      qed
    qed
  qed
qed

lemma rounds_SucD:
  assumes "rounds ag (Suc k) c lg tr = Some s"
  shows "\<exists>pc lg1 actions lg2 c1 lg3 c2 lg4.
           perceive ag c lg = (Inr pc, lg1) \<and> decide ag pc lg1 = (Inr actions, lg2)
           \<and> actions \<noteq> [] \<and> act ag pc actions lg2 = (Inr c1, lg3)
           \<and> reflect ag c1 lg3 = (Inr (False, c2), lg4)
           \<and> rounds ag k c2 lg4 (tr @ [Perceive, Decide, Act, Reflect]) = Some s"
  using assms
  by (auto split: prod.splits sum.splits if_splits)

lemma rounds_run_loop:
  assumes "rounds ag k c lg tr = Some (ck, lgk, trk)" and "i + k \<le> MAX_ITERATIONS"
  shows "run_loop ag i c lg tr = run_loop ag (i + k) ck lgk trk"
  using assms
proof (induction k arbitrary: i c lg tr)
  case 0
  then show ?case by simp
next
  case (Suc k)
  from rounds_SucD [OF Suc.prems(1)] obtain pc lg1 actions lg2 c1 lg3 c2 lg4 where
    s: "perceive ag c lg = (Inr pc, lg1)" "decide ag pc lg1 = (Inr actions, lg2)"
      "actions \<noteq> []" "act ag pc actions lg2 = (Inr c1, lg3)"
      "reflect ag c1 lg3 = (Inr (False, c2), lg4)"
      "rounds ag k c2 lg4 (tr @ [Perceive, Decide, Act, Reflect]) = Some (ck, lgk, trk)"
    by blast
  from Suc.prems(2) have i: "i < MAX_ITERATIONS" "(i + 1) + k \<le> MAX_ITERATIONS" by simp_all
  from run_loop_continue [OF i(1) s(1,2,3,4,5)]
  have "run_loop ag i c lg tr = run_loop ag (i + 1) c2 lg4 (tr @ [Perceive, Decide, Act, Reflect])" .
  also from Suc.IH [OF s(6) i(2)]
  have "\<dots> = run_loop ag (i + 1 + k) ck lgk trk" .
  finally show ?case by simp
qed

lemma rounds_calls:
  "rounds ag k c lg tr = Some (ck, lgk, trk) \<Longrightarrow>
   trk = tr @ concat (replicate k [Perceive, Decide, Act, Reflect])"
proof (induction k arbitrary: c lg tr)
  case 0
  then show ?case by simp
next
  case (Suc k)
  from rounds_SucD [OF Suc.prems] obtain c2 lg4 where
    "rounds ag k c2 lg4 (tr @ [Perceive, Decide, Act, Reflect]) = Some (ck, lgk, trk)"
    by blast
  from Suc.IH [OF this] show ?case by simp
qed

text \<open>\<^verbatim>\<open>run\<close> after \<open>k\<close> such iterations: what is left of the loop decides the result.\<close>

lemma run_after_rounds:
  assumes "rounds ag k c (start_log ag) (calls ag) = Some (ck, lgk, trk)" and "k \<le> MAX_ITERATIONS"
  shows "run_loop ag k ck lgk trk = (Inl err, lgx, trx) \<Longrightarrow>
           run ag c =
             (Inl err,
              ag\<lparr>status_a := Error,
                 log_a := addLog (clock ag) (name ag) ''error'' (message err) lgx, calls := trx\<rparr>)"
    and "run_loop ag k ck lgk trk = (Inr cx, lgx, trx) \<Longrightarrow>
           run ag c =
             (Inr (cx, addLog (clock ag) (name ag) ''complete''
                         (''Agent '' @ name ag @ '' finished successfully'') lgx),
              ag\<lparr>status_a := Completed,
                 log_a := addLog (clock ag) (name ag) ''complete''
                            (''Agent '' @ name ag @ '' finished successfully'') lgx,
                 calls := trx\<rparr>)"
proof -
  from rounds_run_loop [OF assms(1), of 0] assms(2)
  have l: "run_loop ag 0 c (start_log ag) (calls ag) = run_loop ag k ck lgk trk" by simp
  show "run_loop ag k ck lgk trk = (Inl err, lgx, trx) \<Longrightarrow>
           run ag c =
             (Inl err,
              ag\<lparr>status_a := Error,
                 log_a := addLog (clock ag) (name ag) ''error'' (message err) lgx, calls := trx\<rparr>)"
    using l by (simp add: run_def Let_def start_log_def)
  show "run_loop ag k ck lgk trk = (Inr cx, lgx, trx) \<Longrightarrow>
           run ag c =
             (Inr (cx, addLog (clock ag) (name ag) ''complete''
                         (''Agent '' @ name ag @ '' finished successfully'') lgx),
              ag\<lparr>status_a := Completed,
                 log_a := addLog (clock ag) (name ag) ''complete''
                            (''Agent '' @ name ag @ '' finished successfully'') lgx,
                 calls := trx\<rparr>)"
    using l by (simp add: run_def Let_def start_log_def)
qed

lemmas bd_eval = BuddyAgent_def copyFor_def profile0_def settled0_def bd_perceive_def lower_or_def
  toLowerCase_def lower_char_def sort_by_def bd_decide_def bd_act_def init_tasks_def or_empty_def
  MAX_ITERATIONS_def

text \<open>
  Claim C9: for every agent and every context, one call of run invokes each of the phases
  perceive, decide, act and reflect at most 5 times (run is a total function: the loop
  counter bounds the recursion). If decide returns an empty intent list, the loop appends a
  'no-actions' entry and ends without calling act, and run finishes in the completed state.
  If a phase throws, the loop is left with that error; run then sets the error state,
  appends an 'error' entry whose detail is the message of the error, and rejects with the
  same error.

  The statement has three parts. The first bounds the calls of one run. The second gives
  every case of one iteration entered at any counter \<open>i\<close>, the step to iteration \<open>i + 1\<close>
  and the end of the loop at 5 included. The third is about run itself at every iteration:
  when \<open>k < 5\<close> iterations have run all four phases and asked to continue, a throw of any
  phase in the next iteration makes run reject with that error in the error state, with the
  'error' entry as the last of the log and no further phase called; an empty decision makes
  run fulfil in the completed state with the 'no-actions' and 'complete' entries and no
  call of act in that iteration; a reflection that reports completion makes run fulfil; and
  after 5 such iterations run fulfils, each phase having been called exactly 5 times.
\<close>

theorem run_bounded_and_rethrows:
  "MAX_ITERATIONS = 5
   \<and> (\<exists>new. calls (snd (run ag c)) = calls ag @ new \<and> (\<forall>p. count_list new p \<le> 5))
   \<and> (i < MAX_ITERATIONS \<and> perceive ag c lg = (Inr pc, lg1) \<and> decide ag pc lg1 = (Inr [], lg2)
        \<longrightarrow> run_loop ag i c lg tr =
              (Inr pc,
               lg2 @ [\<lparr>timestamp = Some (clock ag (length lg2)), agent_l = name ag,
                       action = ''no-actions'', detail = ''No further actions required''\<rparr>],
               tr @ [Perceive, Decide]))
   \<and> (i < MAX_ITERATIONS \<and> perceive ag c lg = (Inl err, lg1)
        \<longrightarrow> run_loop ag i c lg tr = (Inl err, lg1, tr @ [Perceive]))
   \<and> (i < MAX_ITERATIONS \<and> perceive ag c lg = (Inr pc, lg1) \<and> decide ag pc lg1 = (Inl err, lg2)
        \<longrightarrow> run_loop ag i c lg tr = (Inl err, lg2, tr @ [Perceive, Decide]))
   \<and> (i < MAX_ITERATIONS \<and> perceive ag c lg = (Inr pc, lg1)
        \<and> decide ag pc lg1 = (Inr actions, lg2) \<and> actions \<noteq> []
        \<and> act ag pc actions lg2 = (Inl err, lg3)
        \<longrightarrow> run_loop ag i c lg tr = (Inl err, lg3, tr @ [Perceive, Decide, Act]))
   \<and> (i < MAX_ITERATIONS \<and> perceive ag c lg = (Inr pc, lg1)
        \<and> decide ag pc lg1 = (Inr actions, lg2) \<and> actions \<noteq> []
        \<and> act ag pc actions lg2 = (Inr c1, lg3) \<and> reflect ag c1 lg3 = (Inl err, lg4)
        \<longrightarrow> run_loop ag i c lg tr = (Inl err, lg4, tr @ [Perceive, Decide, Act, Reflect]))
   \<and> (run_loop ag 0 c
          (log_a ag @ [\<lparr>timestamp = Some (clock ag (length (log_a ag))), agent_l = name ag,
                         action = ''start'', detail = ''Agent '' @ name ag @ '' starting''\<rparr>])
          (calls ag) = (Inr c', lg', tr')
        \<longrightarrow> fst (run ag c) =
              Inr (c', lg' @ [\<lparr>timestamp = Some (clock ag (length lg')), agent_l = name ag,
                               action = ''complete'',
                               detail = ''Agent '' @ name ag @ '' finished successfully''\<rparr>])
            \<and> status_a (snd (run ag c)) = Completed
            \<and> log_a (snd (run ag c)) =
                lg' @ [\<lparr>timestamp = Some (clock ag (length lg')), agent_l = name ag,
                         action = ''complete'',
                         detail = ''Agent '' @ name ag @ '' finished successfully''\<rparr>])
   \<and> (run_loop ag 0 c
          (log_a ag @ [\<lparr>timestamp = Some (clock ag (length (log_a ag))), agent_l = name ag,
                         action = ''start'', detail = ''Agent '' @ name ag @ '' starting''\<rparr>])
          (calls ag) = (Inl err, lg', tr')
        \<longrightarrow> fst (run ag c) = Inl err
            \<and> status_a (snd (run ag c)) = Error
            \<and> log_a (snd (run ag c)) =
                lg' @ [\<lparr>timestamp = Some (clock ag (length lg')), agent_l = name ag,
                         action = ''error'', detail = message err\<rparr>])
   \<and> (\<not> i < MAX_ITERATIONS \<longrightarrow> run_loop ag i c lg tr = (Inr c, lg, tr))
   \<and> (i < MAX_ITERATIONS \<and> perceive ag c lg = (Inr pc, lg1)
        \<and> decide ag pc lg1 = (Inr actions, lg2) \<and> actions \<noteq> []
        \<and> act ag pc actions lg2 = (Inr c1, lg3) \<and> reflect ag c1 lg3 = (Inr (True, c2), lg4)
        \<longrightarrow> run_loop ag i c lg tr = (Inr c2, lg4, tr @ [Perceive, Decide, Act, Reflect]))
   \<and> (i < MAX_ITERATIONS \<and> perceive ag c lg = (Inr pc, lg1)
        \<and> decide ag pc lg1 = (Inr actions, lg2) \<and> actions \<noteq> []
        \<and> act ag pc actions lg2 = (Inr c1, lg3) \<and> reflect ag c1 lg3 = (Inr (False, c2), lg4)
        \<longrightarrow> run_loop ag i c lg tr
            = run_loop ag (i + 1) c2 lg4 (tr @ [Perceive, Decide, Act, Reflect]))
   \<and> start_log ag =
        log_a ag @ [\<lparr>timestamp = Some (clock ag (length (log_a ag))), agent_l = name ag,
                     action = ''start'', detail = ''Agent '' @ name ag @ '' starting''\<rparr>]
   \<and> (rounds ag k c (start_log ag) (calls ag) = Some (ck, lgk, trk)
        \<longrightarrow> trk = calls ag @ concat (replicate k [Perceive, Decide, Act, Reflect]))
   \<and> (rounds ag k c (start_log ag) (calls ag) = Some (ck, lgk, trk) \<and> k < 5 \<and> perceive ag ck lgk = (Inl err, lgx)
        \<longrightarrow> fst (run ag c) = Inl err \<and> status_a (snd (run ag c)) = Error
            \<and> log_a (snd (run ag c)) = lgx @ [\<lparr>timestamp = Some (clock ag (length lgx)), agent_l = name ag,
                     action = ''error'', detail = message err\<rparr>]
            \<and> calls (snd (run ag c)) = trk @ [Perceive])
   \<and> (rounds ag k c (start_log ag) (calls ag) = Some (ck, lgk, trk) \<and> k < 5 \<and> perceive ag ck lgk = (Inr pc, lg1)
        \<and> decide ag pc lg1 = (Inl err, lgx)
        \<longrightarrow> fst (run ag c) = Inl err \<and> status_a (snd (run ag c)) = Error
            \<and> log_a (snd (run ag c)) = lgx @ [\<lparr>timestamp = Some (clock ag (length lgx)), agent_l = name ag,
                     action = ''error'', detail = message err\<rparr>]
            \<and> calls (snd (run ag c)) = trk @ [Perceive, Decide])
   \<and> (rounds ag k c (start_log ag) (calls ag) = Some (ck, lgk, trk) \<and> k < 5 \<and> perceive ag ck lgk = (Inr pc, lg1)
        \<and> decide ag pc lg1 = (Inr actions, lg2) \<and> actions \<noteq> []
        \<and> act ag pc actions lg2 = (Inl err, lgx)
        \<longrightarrow> fst (run ag c) = Inl err \<and> status_a (snd (run ag c)) = Error
            \<and> log_a (snd (run ag c)) = lgx @ [\<lparr>timestamp = Some (clock ag (length lgx)), agent_l = name ag,
                     action = ''error'', detail = message err\<rparr>]
            \<and> calls (snd (run ag c)) = trk @ [Perceive, Decide, Act])
   \<and> (rounds ag k c (start_log ag) (calls ag) = Some (ck, lgk, trk) \<and> k < 5 \<and> perceive ag ck lgk = (Inr pc, lg1)
        \<and> decide ag pc lg1 = (Inr actions, lg2) \<and> actions \<noteq> []
        \<and> act ag pc actions lg2 = (Inr c1, lg3) \<and> reflect ag c1 lg3 = (Inl err, lgx)
        \<longrightarrow> fst (run ag c) = Inl err \<and> status_a (snd (run ag c)) = Error
            \<and> log_a (snd (run ag c)) = lgx @ [\<lparr>timestamp = Some (clock ag (length lgx)), agent_l = name ag,
                     action = ''error'', detail = message err\<rparr>]
            \<and> calls (snd (run ag c)) = trk @ [Perceive, Decide, Act, Reflect])
   \<and> (rounds ag k c (start_log ag) (calls ag) = Some (ck, lgk, trk) \<and> k < 5 \<and> perceive ag ck lgk = (Inr pc, lg1)
        \<and> decide ag pc lg1 = (Inr [], lg2)
        \<longrightarrow> fst (run ag c) = Inr (pc, lg2 @ [\<lparr>timestamp = Some (clock ag (length lg2)), agent_l = name ag,
                     action = ''no-actions'', detail = ''No further actions required''\<rparr>,
                   \<lparr>timestamp = Some (clock ag (length lg2 + 1)), agent_l = name ag,
                     action = ''complete'',
                     detail = ''Agent '' @ name ag @ '' finished successfully''\<rparr>])
            \<and> status_a (snd (run ag c)) = Completed
            \<and> calls (snd (run ag c)) = trk @ [Perceive, Decide])
   \<and> (rounds ag k c (start_log ag) (calls ag) = Some (ck, lgk, trk) \<and> k < 5 \<and> perceive ag ck lgk = (Inr pc, lg1)
        \<and> decide ag pc lg1 = (Inr actions, lg2) \<and> actions \<noteq> []
        \<and> act ag pc actions lg2 = (Inr c1, lg3) \<and> reflect ag c1 lg3 = (Inr (True, c2), lg4)
        \<longrightarrow> fst (run ag c) = Inr (c2, lg4 @ [\<lparr>timestamp = Some (clock ag (length lg4)), agent_l = name ag,
                     action = ''complete'', detail = ''Agent '' @ name ag @ '' finished successfully''\<rparr>])
            \<and> status_a (snd (run ag c)) = Completed
            \<and> calls (snd (run ag c)) = trk @ [Perceive, Decide, Act, Reflect])
   \<and> (rounds ag 5 c (start_log ag) (calls ag) = Some (ck, lgk, trk)
        \<longrightarrow> fst (run ag c) = Inr (ck, lgk @ [\<lparr>timestamp = Some (clock ag (length lgk)), agent_l = name ag,
                     action = ''complete'', detail = ''Agent '' @ name ag @ '' finished successfully''\<rparr>])
            \<and> status_a (snd (run ag c)) = Completed
            \<and> calls (snd (run ag c)) = calls ag @ concat (replicate 5 [Perceive, Decide, Act, Reflect]))"
proof (intro conjI impI)
  show "MAX_ITERATIONS = 5" by (simp add: MAX_ITERATIONS_def)
next
  obtain r lg' tr' where rl:
    "run_loop ag 0 c
       (addLog (clock ag) (name ag) ''start'' (''Agent '' @ name ag @ '' starting'') (log_a ag))
       (calls ag) = (r, lg', tr')"
    by (metis prod_cases3)
  from run_loop_calls [OF rl] obtain new where
    new: "tr' = calls ag @ new" "\<forall>p. count_list new p \<le> MAX_ITERATIONS - 0"
    by blast
  have "calls (snd (run ag c)) = tr'"
    using rl by (cases r) (simp_all add: run_def Let_def)
  with new show "\<exists>new. calls (snd (run ag c)) = calls ag @ new \<and> (\<forall>p. count_list new p \<le> 5)"
    by (auto simp: MAX_ITERATIONS_def)
next
  assume "i < MAX_ITERATIONS \<and> perceive ag c lg = (Inr pc, lg1) \<and> decide ag pc lg1 = (Inr [], lg2)"
  then show "run_loop ag i c lg tr =
              (Inr pc,
               lg2 @ [\<lparr>timestamp = Some (clock ag (length lg2)), agent_l = name ag,
                       action = ''no-actions'', detail = ''No further actions required''\<rparr>],
               tr @ [Perceive, Decide])"
    by (simp add: run_loop_no_actions addLog_def)
next
  assume "i < MAX_ITERATIONS \<and> perceive ag c lg = (Inl err, lg1)"
  then show "run_loop ag i c lg tr = (Inl err, lg1, tr @ [Perceive])"
    by (simp add: run_loop_perceive_throws)
next
  assume "i < MAX_ITERATIONS \<and> perceive ag c lg = (Inr pc, lg1) \<and> decide ag pc lg1 = (Inl err, lg2)"
  then show "run_loop ag i c lg tr = (Inl err, lg2, tr @ [Perceive, Decide])"
    by (simp add: run_loop_decide_throws)
next
  assume "i < MAX_ITERATIONS \<and> perceive ag c lg = (Inr pc, lg1)
        \<and> decide ag pc lg1 = (Inr actions, lg2) \<and> actions \<noteq> []
        \<and> act ag pc actions lg2 = (Inl err, lg3)"
  then show "run_loop ag i c lg tr = (Inl err, lg3, tr @ [Perceive, Decide, Act])"
    by (simp add: run_loop_act_throws)
next
  assume "i < MAX_ITERATIONS \<and> perceive ag c lg = (Inr pc, lg1)
        \<and> decide ag pc lg1 = (Inr actions, lg2) \<and> actions \<noteq> []
        \<and> act ag pc actions lg2 = (Inr c1, lg3) \<and> reflect ag c1 lg3 = (Inl err, lg4)"
  then show "run_loop ag i c lg tr = (Inl err, lg4, tr @ [Perceive, Decide, Act, Reflect])"
    by (simp add: run_loop_reflect_throws)
next
  assume a: "run_loop ag 0 c
          (log_a ag @ [\<lparr>timestamp = Some (clock ag (length (log_a ag))), agent_l = name ag,
                         action = ''start'', detail = ''Agent '' @ name ag @ '' starting''\<rparr>])
          (calls ag) = (Inr c', lg', tr')"
  then show "fst (run ag c) =
              Inr (c', lg' @ [\<lparr>timestamp = Some (clock ag (length lg')), agent_l = name ag,
                               action = ''complete'',
                               detail = ''Agent '' @ name ag @ '' finished successfully''\<rparr>])"
    and "status_a (snd (run ag c)) = Completed"
    and "log_a (snd (run ag c)) =
                lg' @ [\<lparr>timestamp = Some (clock ag (length lg')), agent_l = name ag,
                         action = ''complete'',
                         detail = ''Agent '' @ name ag @ '' finished successfully''\<rparr>]"
    by (simp_all add: run_def Let_def addLog_def)
next
  assume a: "run_loop ag 0 c
          (log_a ag @ [\<lparr>timestamp = Some (clock ag (length (log_a ag))), agent_l = name ag,
                         action = ''start'', detail = ''Agent '' @ name ag @ '' starting''\<rparr>])
          (calls ag) = (Inl err, lg', tr')"
  then show "fst (run ag c) = Inl err"
    and "status_a (snd (run ag c)) = Error"
    and "log_a (snd (run ag c)) =
                lg' @ [\<lparr>timestamp = Some (clock ag (length lg')), agent_l = name ag,
                         action = ''error'', detail = message err\<rparr>]"
    by (simp_all add: run_def Let_def addLog_def)
next
  assume "\<not> i < MAX_ITERATIONS"
  then show "run_loop ag i c lg tr = (Inr c, lg, tr)" by (rule run_loop_exhausted)
next
  assume "i < MAX_ITERATIONS \<and> perceive ag c lg = (Inr pc, lg1)
        \<and> decide ag pc lg1 = (Inr actions, lg2) \<and> actions \<noteq> []
        \<and> act ag pc actions lg2 = (Inr c1, lg3) \<and> reflect ag c1 lg3 = (Inr (True, c2), lg4)"
  then show "run_loop ag i c lg tr = (Inr c2, lg4, tr @ [Perceive, Decide, Act, Reflect])"
    by (simp add: run_loop_complete)
next
  assume "i < MAX_ITERATIONS \<and> perceive ag c lg = (Inr pc, lg1)
        \<and> decide ag pc lg1 = (Inr actions, lg2) \<and> actions \<noteq> []
        \<and> act ag pc actions lg2 = (Inr c1, lg3) \<and> reflect ag c1 lg3 = (Inr (False, c2), lg4)"
  then show "run_loop ag i c lg tr
            = run_loop ag (i + 1) c2 lg4 (tr @ [Perceive, Decide, Act, Reflect])"
    by (simp add: run_loop_continue)
next
  show "start_log ag =
        log_a ag @ [\<lparr>timestamp = Some (clock ag (length (log_a ag))), agent_l = name ag,
                     action = ''start'', detail = ''Agent '' @ name ag @ '' starting''\<rparr>]"
    by (simp add: start_log_def addLog_def)
next
  assume "rounds ag k c (start_log ag) (calls ag) = Some (ck, lgk, trk)"
  then show "trk = calls ag @ concat (replicate k [Perceive, Decide, Act, Reflect])"
    by (rule rounds_calls)
next
  assume "rounds ag k c (start_log ag) (calls ag) = Some (ck, lgk, trk) \<and> k < 5 \<and> perceive ag ck lgk = (Inl err, lgx)"
  then show "fst (run ag c) = Inl err" and "status_a (snd (run ag c)) = Error"
    and "log_a (snd (run ag c)) = lgx @ [\<lparr>timestamp = Some (clock ag (length lgx)), agent_l = name ag,
                     action = ''error'', detail = message err\<rparr>]"
    and "calls (snd (run ag c)) = trk @ [Perceive]"
    using run_after_rounds [of ag k c ck lgk trk] run_loop_perceive_throws [of k ag ck lgk]
    by (simp_all add: MAX_ITERATIONS_def addLog_def)
next
  assume "rounds ag k c (start_log ag) (calls ag) = Some (ck, lgk, trk) \<and> k < 5 \<and> perceive ag ck lgk = (Inr pc, lg1)
        \<and> decide ag pc lg1 = (Inl err, lgx)"
  then show "fst (run ag c) = Inl err" and "status_a (snd (run ag c)) = Error"
    and "log_a (snd (run ag c)) = lgx @ [\<lparr>timestamp = Some (clock ag (length lgx)), agent_l = name ag,
                     action = ''error'', detail = message err\<rparr>]"
    and "calls (snd (run ag c)) = trk @ [Perceive, Decide]"
    using run_after_rounds [of ag k c ck lgk trk] run_loop_decide_throws [of k ag ck lgk]
    by (simp_all add: MAX_ITERATIONS_def addLog_def)
next
  assume "rounds ag k c (start_log ag) (calls ag) = Some (ck, lgk, trk) \<and> k < 5 \<and> perceive ag ck lgk = (Inr pc, lg1)
        \<and> decide ag pc lg1 = (Inr actions, lg2) \<and> actions \<noteq> []
        \<and> act ag pc actions lg2 = (Inl err, lgx)"
  then show "fst (run ag c) = Inl err" and "status_a (snd (run ag c)) = Error"
    and "log_a (snd (run ag c)) = lgx @ [\<lparr>timestamp = Some (clock ag (length lgx)), agent_l = name ag,
                     action = ''error'', detail = message err\<rparr>]"
    and "calls (snd (run ag c)) = trk @ [Perceive, Decide, Act]"
    using run_after_rounds [of ag k c ck lgk trk] run_loop_act_throws [of k ag ck lgk]
    by (simp_all add: MAX_ITERATIONS_def addLog_def)
next
  assume "rounds ag k c (start_log ag) (calls ag) = Some (ck, lgk, trk) \<and> k < 5 \<and> perceive ag ck lgk = (Inr pc, lg1)
        \<and> decide ag pc lg1 = (Inr actions, lg2) \<and> actions \<noteq> []
        \<and> act ag pc actions lg2 = (Inr c1, lg3) \<and> reflect ag c1 lg3 = (Inl err, lgx)"
  then show "fst (run ag c) = Inl err" and "status_a (snd (run ag c)) = Error"
    and "log_a (snd (run ag c)) = lgx @ [\<lparr>timestamp = Some (clock ag (length lgx)), agent_l = name ag,
                     action = ''error'', detail = message err\<rparr>]"
    and "calls (snd (run ag c)) = trk @ [Perceive, Decide, Act, Reflect]"
    using run_after_rounds [of ag k c ck lgk trk] run_loop_reflect_throws [of k ag ck lgk]
    by (simp_all add: MAX_ITERATIONS_def addLog_def)
next
  assume "rounds ag k c (start_log ag) (calls ag) = Some (ck, lgk, trk) \<and> k < 5 \<and> perceive ag ck lgk = (Inr pc, lg1)
        \<and> decide ag pc lg1 = (Inr [], lg2)"
  then show "fst (run ag c) = Inr (pc, lg2 @ [\<lparr>timestamp = Some (clock ag (length lg2)), agent_l = name ag,
                     action = ''no-actions'', detail = ''No further actions required''\<rparr>,
                   \<lparr>timestamp = Some (clock ag (length lg2 + 1)), agent_l = name ag,
                     action = ''complete'',
                     detail = ''Agent '' @ name ag @ '' finished successfully''\<rparr>])"
    and "status_a (snd (run ag c)) = Completed"
    and "calls (snd (run ag c)) = trk @ [Perceive, Decide]"
    using run_after_rounds [of ag k c ck lgk trk] run_loop_no_actions [of k ag ck lgk]
    by (simp_all add: MAX_ITERATIONS_def addLog_def)
next
  assume "rounds ag k c (start_log ag) (calls ag) = Some (ck, lgk, trk) \<and> k < 5 \<and> perceive ag ck lgk = (Inr pc, lg1)
        \<and> decide ag pc lg1 = (Inr actions, lg2) \<and> actions \<noteq> []
        \<and> act ag pc actions lg2 = (Inr c1, lg3) \<and> reflect ag c1 lg3 = (Inr (True, c2), lg4)"
  then show "fst (run ag c) = Inr (c2, lg4 @ [\<lparr>timestamp = Some (clock ag (length lg4)), agent_l = name ag,
                     action = ''complete'', detail = ''Agent '' @ name ag @ '' finished successfully''\<rparr>])"
    and "status_a (snd (run ag c)) = Completed"
    and "calls (snd (run ag c)) = trk @ [Perceive, Decide, Act, Reflect]"
    using run_after_rounds [of ag k c ck lgk trk] run_loop_complete [of k ag ck lgk]
    by (simp_all add: MAX_ITERATIONS_def addLog_def)
next
  assume a: "rounds ag 5 c (start_log ag) (calls ag) = Some (ck, lgk, trk)"
  from rounds_calls [OF a] have t: "trk = calls ag @ concat (replicate 5 [Perceive, Decide, Act, Reflect])" .
  from a show "fst (run ag c) = Inr (ck, lgk @ [\<lparr>timestamp = Some (clock ag (length lgk)), agent_l = name ag,
                     action = ''complete'', detail = ''Agent '' @ name ag @ '' finished successfully''\<rparr>])"
    and "status_a (snd (run ag c)) = Completed"
    and "calls (snd (run ag c)) = calls ag @ concat (replicate 5 [Perceive, Decide, Act, Reflect])"
    using run_after_rounds [of ag 5 c ck lgk trk] run_loop_exhausted [of 5 ag ck lgk trk] t
    by (simp_all add: MAX_ITERATIONS_def addLog_def)
qed

theorem run_bounded_and_rethrows_witness:
  "fst (run (BuddyAgent [] clock0) (copyFor profile0))
     = Inl (TypeError ''Cannot read properties of undefined (reading name)'')
   \<and> status_a (snd (run (BuddyAgent [] clock0) (copyFor profile0))) = Error
   \<and> log_a (snd (run (BuddyAgent [] clock0) (copyFor profile0)))
     = [\<lparr>timestamp = Some (clock0 0), agent_l = ''Buddy Agent'', action = ''start'',
         detail = ''Agent Buddy Agent starting''\<rparr>,
        \<lparr>timestamp = Some (clock0 1), agent_l = ''Buddy Agent'', action = ''error'',
         detail = ''Cannot read properties of undefined (reading name)''\<rparr>]
   \<and> run_loop (BuddyAgent [] clock0) 0 (copyFor settled0) [] []
     = (Inr ((copyFor settled0)\<lparr>buddyPerception := Some \<lparr>candidates = [], alreadyAssigned = True\<rparr>\<rparr>),
        [\<lparr>timestamp = Some (clock0 0), agent_l = ''Buddy Agent'', action = ''no-actions'',
          detail = ''No further actions required''\<rparr>],
        [Perceive, Decide])
   \<and> fst (run (flaky 2) (copyFor profile0)) = Inl (TypeError ''flaky'')
   \<and> status_a (snd (run (flaky 2) (copyFor profile0))) = Error
   \<and> log_a (snd (run (flaky 2) (copyFor profile0)))
     = [\<lparr>timestamp = Some (clock0 0), agent_l = ''Flaky Agent'', action = ''start'',
         detail = ''Agent Flaky Agent starting''\<rparr>,
        \<lparr>timestamp = Some (clock0 1), agent_l = ''Flaky Agent'', action = ''error'',
         detail = ''flaky''\<rparr>]
   \<and> calls (snd (run (flaky 2) (copyFor profile0)))
     = [Perceive, Decide, Act, Reflect, Perceive, Decide, Act, Reflect, Perceive]
   \<and> status_a (snd (run (flaky 9) (copyFor profile0))) = Completed
   \<and> calls (snd (run (flaky 9) (copyFor profile0)))
     = [Perceive, Decide, Act, Reflect, Perceive, Decide, Act, Reflect, Perceive, Decide, Act,
        Reflect, Perceive, Decide, Act, Reflect, Perceive, Decide, Act, Reflect]"
proof -
  let ?B = "BuddyAgent [] clock0"
  let ?lg0 = "[\<lparr>timestamp = Some (clock0 0), agent_l = ''Buddy Agent'', action = ''start'',
                 detail = ''Agent Buddy Agent starting''\<rparr>]"
  let ?pc = "(copyFor profile0)\<lparr>buddyPerception := Some \<lparr>candidates = [], alreadyAssigned = False\<rparr>\<rparr>"
  let ?err = "TypeError ''Cannot read properties of undefined (reading name)''"
  have i: "0 < MAX_ITERATIONS" by (simp add: MAX_ITERATIONS_def)
  have p: "perceive ?B (copyFor profile0) ?lg0 = (Inr ?pc, ?lg0)"
    by (simp add: bd_eval)
  have d: "decide ?B ?pc ?lg0 = (Inr [Assign_buddy None, Schedule_check_ins], ?lg0)"
    by (simp add: bd_eval)
  have a: "act ?B ?pc [Assign_buddy None, Schedule_check_ins] ?lg0 = (Inl ?err, ?lg0)"
    by (simp add: bd_eval)
  note thm1 = run_bounded_and_rethrows [where ag = ?B and c = "copyFor profile0" and i = 0
      and lg = ?lg0 and tr = "[]" and pc = ?pc and ?lg1.0 = ?lg0 and ?lg2.0 = ?lg0
      and actions = "[Assign_buddy None, Schedule_check_ins]" and err = ?err and ?lg3.0 = ?lg0
      and lg' = ?lg0 and tr' = "[Perceive, Decide, Act]"]
  note act_throws = thm1 [THEN conjunct2, THEN conjunct2, THEN conjunct2, THEN conjunct2,
      THEN conjunct2, THEN conjunct1, rule_format]
  note rejected = thm1 [THEN conjunct2, THEN conjunct2, THEN conjunct2, THEN conjunct2,
      THEN conjunct2, THEN conjunct2, THEN conjunct2, THEN conjunct2, THEN conjunct1,
      rule_format]
  have "run_loop ?B 0 (copyFor profile0) ?lg0 [] = (Inl ?err, ?lg0, [] @ [Perceive, Decide, Act])"
    by (rule act_throws) (simp add: i p d a)
  then have loop: "run_loop ?B 0 (copyFor profile0) ?lg0 [] = (Inl ?err, ?lg0, [Perceive, Decide, Act])"
    by simp
  have start: "name ?B = ''Buddy Agent''" "clock ?B = clock0" "log_a ?B = []" "calls ?B = []"
    by (simp_all add: BuddyAgent_def)
  from loop start
  have loop': "run_loop ?B 0 (copyFor profile0)
       (log_a ?B @ [\<lparr>timestamp = Some (clock ?B (length (log_a ?B))), agent_l = name ?B,
                 action = ''start'', detail = ''Agent '' @ name ?B @ '' starting''\<rparr>])
       (calls ?B) = (Inl ?err, ?lg0, [Perceive, Decide, Act])"
    by (simp add: start)
  from rejected [OF loop']
  have r: "fst (run ?B (copyFor profile0)) = Inl ?err"
    "status_a (snd (run ?B (copyFor profile0))) = Error"
    "log_a (snd (run ?B (copyFor profile0))) =
       ?lg0 @ [\<lparr>timestamp = Some (clock ?B (length ?lg0)), agent_l = name ?B,
                 action = ''error'', detail = message ?err\<rparr>]"
    by simp_all
  let ?pc2 = "(copyFor settled0)\<lparr>buddyPerception := Some \<lparr>candidates = [], alreadyAssigned = True\<rparr>\<rparr>"
  have p2: "perceive ?B (copyFor settled0) [] = (Inr ?pc2, [])"
    by (simp add: bd_eval)
  have d2: "decide ?B ?pc2 [] = (Inr [], [])"
    by (simp add: bd_eval)
  note no_actions = run_bounded_and_rethrows [where ag = ?B and c = "copyFor settled0" and i = 0
      and lg = "[]" and tr = "[]" and pc = ?pc2 and ?lg1.0 = "[]" and ?lg2.0 = "[]",
      THEN conjunct2, THEN conjunct2, THEN conjunct1, rule_format]
  from i p2 d2
  have n: "run_loop ?B 0 (copyFor settled0) [] [] =
             (Inr ?pc2,
              [] @ [\<lparr>timestamp = Some (clock ?B (length ([] :: log_entry list))), agent_l = name ?B,
                      action = ''no-actions'', detail = ''No further actions required''\<rparr>],
              [] @ [Perceive, Decide])"
    by (intro no_actions) simp
  have old: "fst (run ?B (copyFor profile0)) = Inl ?err
   \<and> status_a (snd (run ?B (copyFor profile0))) = Error
   \<and> log_a (snd (run ?B (copyFor profile0)))
     = [\<lparr>timestamp = Some (clock0 0), agent_l = ''Buddy Agent'', action = ''start'',
         detail = ''Agent Buddy Agent starting''\<rparr>,
        \<lparr>timestamp = Some (clock0 1), agent_l = ''Buddy Agent'', action = ''error'',
         detail = ''Cannot read properties of undefined (reading name)''\<rparr>]
   \<and> run_loop ?B 0 (copyFor settled0) [] []
     = (Inr ?pc2,
        [\<lparr>timestamp = Some (clock0 0), agent_l = ''Buddy Agent'', action = ''no-actions'',
          detail = ''No further actions required''\<rparr>],
        [Perceive, Decide])"
    using r n by (simp add: start)
  let ?s = "[\<lparr>timestamp = Some (clock0 0), agent_l = ''Flaky Agent'', action = ''start'',
                detail = ''Agent Flaky Agent starting''\<rparr>]"
  have fs: "start_log (flaky n) = ?s" "calls (flaky n) = []" "clock (flaky n) = clock0"
    "name (flaky n) = ''Flaky Agent''" for n
    by (simp_all add: start_log_def addLog_def flaky_def)
  have "\<exists>ck trk. rounds (flaky 2) 2 (copyFor profile0) (start_log (flaky 2)) (calls (flaky 2))
             = Some (ck, ?s, trk) \<and> 2 < (5 :: nat)
         \<and> perceive (flaky 2) ck ?s = (Inl (TypeError ''flaky''), ?s)"
    unfolding fs
    by (simp add: flaky_def numeral_2_eq_2 push_tasks_def copyFor_def profile0_def or_empty_def)
  then obtain ck trk where
    f2: "rounds (flaky 2) 2 (copyFor profile0) (start_log (flaky 2)) (calls (flaky 2))
             = Some (ck, ?s, trk) \<and> 2 < (5 :: nat)
         \<and> perceive (flaky 2) ck ?s = (Inl (TypeError ''flaky''), ?s)"
    by blast
  note th2 = run_bounded_and_rethrows [where ag = "flaky 2" and c = "copyFor profile0"
      and k = 2 and ck = ck and lgk = ?s and trk = trk and err = "TypeError ''flaky''"
      and lgx = ?s]
  note calls2 = th2 [THEN conjunct2, THEN conjunct2, THEN conjunct2, THEN conjunct2, THEN conjunct2, THEN conjunct2, THEN conjunct2, THEN conjunct2, THEN conjunct2, THEN conjunct2, THEN conjunct2, THEN conjunct2, THEN conjunct2, THEN conjunct1, rule_format]
  note throws2 = th2 [THEN conjunct2, THEN conjunct2, THEN conjunct2, THEN conjunct2, THEN conjunct2, THEN conjunct2, THEN conjunct2, THEN conjunct2, THEN conjunct2, THEN conjunct2, THEN conjunct2, THEN conjunct2, THEN conjunct2, THEN conjunct2, THEN conjunct1, rule_format]
  from f2 have t2: "trk = calls (flaky 2) @ concat (replicate 2 [Perceive, Decide, Act, Reflect])"
    by (intro calls2) simp
  from throws2 [OF f2] t2
  have new1: "fst (run (flaky 2) (copyFor profile0)) = Inl (TypeError ''flaky'')
   \<and> status_a (snd (run (flaky 2) (copyFor profile0))) = Error
   \<and> log_a (snd (run (flaky 2) (copyFor profile0)))
     = [\<lparr>timestamp = Some (clock0 0), agent_l = ''Flaky Agent'', action = ''start'',
         detail = ''Agent Flaky Agent starting''\<rparr>,
        \<lparr>timestamp = Some (clock0 1), agent_l = ''Flaky Agent'', action = ''error'',
         detail = ''flaky''\<rparr>]
   \<and> calls (snd (run (flaky 2) (copyFor profile0)))
     = [Perceive, Decide, Act, Reflect, Perceive, Decide, Act, Reflect, Perceive]"
    by (simp add: fs numeral_2_eq_2)
  have "\<exists>ck lgk trk. rounds (flaky 9) 5 (copyFor profile0) (start_log (flaky 9)) (calls (flaky 9))
             = Some (ck, lgk, trk)"
    unfolding fs
    by (simp add: flaky_def eval_nat_numeral push_tasks_def copyFor_def profile0_def or_empty_def)
  then obtain ck9 lgk9 trk9 where
    f9: "rounds (flaky 9) 5 (copyFor profile0) (start_log (flaky 9)) (calls (flaky 9))
             = Some (ck9, lgk9, trk9)"
    by blast
  note exhausted = run_bounded_and_rethrows [where ag = "flaky 9" and c = "copyFor profile0"
      and ck = ck9 and lgk = lgk9 and trk = trk9,
      THEN conjunct2, THEN conjunct2, THEN conjunct2, THEN conjunct2, THEN conjunct2, THEN conjunct2, THEN conjunct2, THEN conjunct2, THEN conjunct2, THEN conjunct2, THEN conjunct2, THEN conjunct2, THEN conjunct2, THEN conjunct2, THEN conjunct2, THEN conjunct2, THEN conjunct2, THEN conjunct2, THEN conjunct2, THEN conjunct2, rule_format]
  from exhausted [OF f9]
  have new2: "status_a (snd (run (flaky 9) (copyFor profile0))) = Completed
   \<and> calls (snd (run (flaky 9) (copyFor profile0)))
     = [Perceive, Decide, Act, Reflect, Perceive, Decide, Act, Reflect, Perceive, Decide, Act,
        Reflect, Perceive, Decide, Act, Reflect, Perceive, Decide, Act, Reflect]"
    by (simp add: fs eval_nat_numeral)
  from old new1 new2 show ?thesis by (intro conjI) (elim conjE, assumption)+
qed
section \<open>The runs of the four agents\<close>

lemma or_empty_push_tasks [simp]:
  "or_empty (tasks (push_tasks new emp)) = or_empty (tasks emp) @ new"
  by (simp add: push_tasks_def or_empty_def)

lemma init_tasks_or_empty [simp]: "or_empty (tasks (init_tasks emp)) = or_empty (tasks emp)"
  by (simp add: init_tasks_def or_empty_def split: option.splits)

lemma init_tasks_Some [simp]: "tasks emp = Some ts \<Longrightarrow> init_tasks emp = emp"
  by (simp add: init_tasks_def)

lemma run_pass:
  assumes p: "perceive ag c (start_log ag) = (Inr pc, lg1)"
    and d: "decide ag pc lg1 = (Inr acts, lg2)"
    and a: "acts \<noteq> [] \<Longrightarrow>
            \<exists>lg3 lg4. act ag pc acts lg2 = (Inr c1, lg3) \<and> reflect ag c1 lg3 = (Inr (True, c1), lg4)"
    and n: "acts = [] \<Longrightarrow> c1 = pc"
  shows "\<exists>lg'. fst (run ag c) = Inr (c1, lg')"
proof -
  have i: "0 < MAX_ITERATIONS" by (simp add: MAX_ITERATIONS_def)
  show ?thesis
  proof (cases "acts = []")
    case True
    from run_loop_no_actions [OF i p d [unfolded True], of "calls ag"] n [OF True]
    show ?thesis
      by (simp add: run_fulfilled [unfolded start_log_def [symmetric]] start_log_def)
  next
    case False
    from a [OF False] obtain lg3 lg4 where
      "act ag pc acts lg2 = (Inr c1, lg3)" "reflect ag c1 lg3 = (Inr (True, c1), lg4)"
      by blast
    from run_loop_complete [OF i p d False this, of "calls ag"]
    show ?thesis
      by (simp add: run_fulfilled start_log_def)
  qed
qed

lemma run_perceive_throws:
  "perceive ag c (start_log ag) = (Inl err, lg1) \<Longrightarrow> fst (run ag c) = Inl err"
  using run_loop_perceive_throws [of 0 ag c "start_log ag" err lg1 "calls ag"]
  by (simp add: run_rejected start_log_def MAX_ITERATIONS_def)

lemma run_decide_throws:
  "perceive ag c (start_log ag) = (Inr pc, lg1) \<Longrightarrow> decide ag pc lg1 = (Inl err, lg2) \<Longrightarrow>
   fst (run ag c) = Inl err"
  using run_loop_decide_throws [of 0 ag c "start_log ag" pc lg1 err lg2 "calls ag"]
  by (simp add: run_rejected start_log_def MAX_ITERATIONS_def)

lemma run_act_throws:
  "perceive ag c (start_log ag) = (Inr pc, lg1) \<Longrightarrow> decide ag pc lg1 = (Inr acts, lg2) \<Longrightarrow>
   acts \<noteq> [] \<Longrightarrow> act ag pc acts lg2 = (Inl err, lg3) \<Longrightarrow> fst (run ag c) = Inl err"
  using run_loop_act_throws [of 0 ag c "start_log ag" pc lg1 acts lg2 err lg3 "calls ag"]
  by (simp add: run_rejected start_log_def MAX_ITERATIONS_def)

lemma hr_fold_effect:
  assumes "tasks emp = Some ts"
  shows "fst (fold (hr_act_step clk ''HR Agent'')
           ((if length (hr_missing emp) > 0 then [Request_documents (hr_missing emp)] else [])
            @ (if length (hr_pendingPolicies emp) > 0
               then [Assign_policy_acknowledgments (hr_pendingPolicies emp)] else [])
            @ (if \<not> flag (benefitsEnrollmentStarted emp) then [Initiate_benefits_enrollment] else []))
           (emp, lg)) = hr_effect emp"
  using assms
  by (cases emp) (simp add: hr_effect_def hr_tasks_def push_tasks_def or_empty_def)

lemma hr_run:
  assumes "is_HRAgent ag" and ts: "tasks (employee c) = Some ts"
  shows "\<exists>c' lg'. fst (run ag c) = Inr (c', lg') \<and> employee c' = hr_effect (employee c)"
proof -
  from assms have m: "perceive ag = hr_perceive" "decide ag = hr_decide"
    "act ag = hr_act (clock ag) ''HR Agent''" "reflect ag = hr_reflect (clock ag) ''HR Agent''"
    by (simp_all add: is_HRAgent_def)
  let ?pc = "c\<lparr>hrPerception := Some \<lparr>requiredDocs = hr_requiredDocs, missing = hr_missing (employee c),
                 submitted = or_empty (documents (employee c))\<rparr>\<rparr>"
  define acts where "acts = (if length (hr_missing (employee c)) > 0
                then [Request_documents (hr_missing (employee c))] else [])
            @ (if length (hr_pendingPolicies (employee c)) > 0
               then [Assign_policy_acknowledgments (hr_pendingPolicies (employee c))] else [])
            @ (if \<not> flag (benefitsEnrollmentStarted (employee c))
               then [Initiate_benefits_enrollment] else [])"
  have p: "perceive ag c (start_log ag) = (Inr ?pc, start_log ag)"
    by (simp add: m hr_perceive_def Let_def hr_missing_def)
  have d: "decide ag ?pc (start_log ag) = (Inr acts, start_log ag)"
    by (simp add: m hr_decide_def Let_def hr_pendingPolicies_def acts_def)
  have fe: "fst (fold (hr_act_step (clock ag) ''HR Agent'') acts (employee c, start_log ag))
      = hr_effect (employee c)"
    unfolding acts_def by (rule hr_fold_effect [OF ts])
  have a: "\<exists>lg3 lg4. act ag ?pc acts (start_log ag) = (Inr (?pc\<lparr>employee := hr_effect (employee c)\<rparr>), lg3)
      \<and> reflect ag (?pc\<lparr>employee := hr_effect (employee c)\<rparr>) lg3
          = (Inr (True, ?pc\<lparr>employee := hr_effect (employee c)\<rparr>), lg4)"
    using fe by (auto simp: m hr_act_def hr_reflect_def Let_def ts split: prod.splits)
  have n: "acts = [] \<Longrightarrow> ?pc\<lparr>employee := hr_effect (employee c)\<rparr> = ?pc"
    using ts unfolding acts_def
    by (cases "employee c") (simp add: hr_effect_def hr_tasks_def or_empty_def split: if_splits)
  from run_pass [OF p d a n] show ?thesis by auto
qed

lemma it_fold_effect:
  assumes "tasks emp = Some ts"
  shows "fst (fold (it_act_step clk ''IT Setup Agent'')
           ((if \<not> flag (emailProvisioned emp) then [Provision_email addr] else [])
            @ (if length (it_neededSoftware pr emp) > 0
               then [Assign_software (it_neededSoftware pr emp)] else [])
            @ (if length (it_neededHardware pr emp) > 0
               then [Request_hardware (it_neededHardware pr emp)] else [])
            @ [Configure_access (access pr)])
           (emp, lg)) = it_effect pr addr emp"
  using assms
  by (cases emp) (simp add: it_effect_def it_tasks_def push_tasks_def or_empty_def Let_def)

lemma it_run:
  assumes "is_ITSetupAgent ag" and ts: "tasks (employee c) = Some ts"
    and dept: "lower_or ''default'' (getp (department (employee c))) = Inr d"
    and prof: "it_profile d = Some pr"
    and addr: "\<not> flag (emailProvisioned (employee c)) \<Longrightarrow> it_address (employee c) = Inr addr"
  shows "\<exists>c' lg'. fst (run ag c) = Inr (c', lg') \<and> employee c' = it_effect pr addr (employee c)"
proof -
  from assms have m: "perceive ag = it_perceive" "decide ag = it_decide"
    "act ag = it_act (clock ag) ''IT Setup Agent''"
    "reflect ag = it_reflect (clock ag) ''IT Setup Agent''"
    by (simp_all add: is_ITSetupAgent_def)
  let ?pc = "c\<lparr>itPerception := Some \<lparr>profile_i = Some pr, department_i = d,
                 existingAccounts = or_empty (accounts (employee c)),
                 existingHardware = or_empty (hardware (employee c))\<rparr>\<rparr>"
  define acts where "acts =
      (if \<not> flag (emailProvisioned (employee c)) then [Provision_email addr] else [])
      @ (if length (it_neededSoftware pr (employee c)) > 0
         then [Assign_software (it_neededSoftware pr (employee c))] else [])
      @ (if length (it_neededHardware pr (employee c)) > 0
         then [Request_hardware (it_neededHardware pr (employee c))] else [])
      @ [Configure_access (access pr)]"
  have p: "perceive ag c (start_log ag) = (Inr ?pc, start_log ag)"
    by (simp add: m it_perceive_def dept prof)
  have d: "decide ag ?pc (start_log ag) = (Inr acts, start_log ag)"
    using addr
    by (simp add: m it_decide_def Let_def it_neededSoftware_def it_neededHardware_def acts_def)
  have fe: "fst (fold (it_act_step (clock ag) ''IT Setup Agent'') acts (employee c, start_log ag))
      = it_effect pr addr (employee c)"
    unfolding acts_def by (rule it_fold_effect [OF ts])
  have a: "\<exists>lg3 lg4. act ag ?pc acts (start_log ag) = (Inr (?pc\<lparr>employee := it_effect pr addr (employee c)\<rparr>), lg3)
      \<and> reflect ag (?pc\<lparr>employee := it_effect pr addr (employee c)\<rparr>) lg3
          = (Inr (True, ?pc\<lparr>employee := it_effect pr addr (employee c)\<rparr>), lg4)"
    using fe by (auto simp: m it_act_def it_reflect_def Let_def ts split: prod.splits)
  have n: "acts = [] \<Longrightarrow> ?pc\<lparr>employee := it_effect pr addr (employee c)\<rparr> = ?pc"
    by (simp add: acts_def)
  from run_pass [OF p d a n] show ?thesis by auto
qed

lemma it_run_rejects_department:
  assumes "is_ITSetupAgent ag"
    and dept: "lower_or ''default'' (getp (department (employee c))) = Inl err"
  shows "fst (run ag c) = Inl err"
proof -
  from assms have "perceive ag c (start_log ag) = (Inl err, start_log ag)"
    by (simp add: is_ITSetupAgent_def it_perceive_def)
  then show ?thesis by (rule run_perceive_throws)
qed

lemma it_run_rejects_address:
  assumes "is_ITSetupAgent ag"
    and dept: "lower_or ''default'' (getp (department (employee c))) = Inr d"
    and "\<not> flag (emailProvisioned (employee c))" and "it_address (employee c) = Inl err"
  shows "fst (run ag c) = Inl err"
proof -
  let ?pc = "c\<lparr>itPerception := Some \<lparr>profile_i = it_profile d, department_i = d,
                 existingAccounts = or_empty (accounts (employee c)),
                 existingHardware = or_empty (hardware (employee c))\<rparr>\<rparr>"
  from assms have p: "perceive ag c (start_log ag) = (Inr ?pc, start_log ag)"
    by (simp add: is_ITSetupAgent_def it_perceive_def)
  from assms have d: "decide ag ?pc (start_log ag) = (Inl err, start_log ag)"
    by (simp add: is_ITSetupAgent_def it_decide_def)
  from p d show ?thesis by (rule run_decide_throws)
qed

lemma it_run_rejects_profile:
  assumes "is_ITSetupAgent ag"
    and dept: "lower_or ''default'' (getp (department (employee c))) = Inr d"
    and "it_profile d = None"
  shows "\<exists>err. fst (run ag c) = Inl err"
proof -
  let ?pc = "c\<lparr>itPerception := Some \<lparr>profile_i = None, department_i = d,
                 existingAccounts = or_empty (accounts (employee c)),
                 existingHardware = or_empty (hardware (employee c))\<rparr>\<rparr>"
  from assms have p: "perceive ag c (start_log ag) = (Inr ?pc, start_log ag)"
    by (simp add: is_ITSetupAgent_def it_perceive_def)
  from assms have "\<exists>err. decide ag ?pc (start_log ag) = (Inl err, start_log ag)"
    by (cases "it_address (employee c)") (simp_all add: is_ITSetupAgent_def it_decide_def)
  with p show ?thesis by (blast intro: run_decide_throws)
qed

text \<open>Every run of the IT agent either rejects or has the effect of some profile.\<close>

lemma it_run_cases:
  assumes "is_ITSetupAgent ag" and ts: "tasks (employee c) = Some ts"
  shows "(\<exists>err. fst (run ag c) = Inl err)
     \<or> (\<exists>c' lg' d pr addr. fst (run ag c) = Inr (c', lg')
           \<and> lower_or ''default'' (getp (department (employee c))) = Inr d
           \<and> it_profile d = Some pr
           \<and> employee c' = it_effect pr addr (employee c))"
proof (cases "lower_or ''default'' (getp (department (employee c)))")
  case (Inl err)
  with assms(1) show ?thesis by (blast intro: it_run_rejects_department)
next
  case (Inr d)
  show ?thesis
  proof (cases "it_profile d")
    case None
    with assms(1) Inr show ?thesis by (blast dest: it_run_rejects_profile)
  next
    case (Some pr)
    show ?thesis
    proof (cases "flag (emailProvisioned (employee c))")
      case True
      from it_run [OF assms Inr Some, of undefined] True show ?thesis using Inr Some by blast
    next
      case False
      show ?thesis
      proof (cases "it_address (employee c)")
        case (Inl err)
        with assms(1) Inr False show ?thesis by (blast intro: it_run_rejects_address)
      next
        case addr: (Inr addr)
        from it_run [OF assms Inr Some, of addr] addr show ?thesis using Inr Some by blast
      qed
    qed
  qed
qed

lemma tr_fold_effect:
  assumes "tasks emp = Some ts"
  shows "fst (fold (tr_act_step clk ''Training Agent'')
           ((if length (tr_pendingModules rms emp) > 0
             then [Assign_modules (tr_pendingModules rms emp)] else [])
            @ (if \<not> flag (managerMeetingScheduled emp) then [Schedule_manager_meeting] else [])
            @ (if \<not> flag (teamIntroScheduled emp) then [Schedule_team_intro] else []))
           (emp, lg)) = tr_effect rms emp"
  using assms
  by (cases emp) (simp add: tr_effect_def tr_tasks_def push_tasks_def or_empty_def Let_def)

lemma tr_run:
  assumes "is_TrainingAgent ag" and ts: "tasks (employee c) = Some ts"
    and dept: "lower_or ''default'' (getp (department (employee c))) = Inr d"
    and path: "tr_rolePath d = Some rms"
  shows "\<exists>c' lg'. fst (run ag c) = Inr (c', lg') \<and> employee c' = tr_effect rms (employee c)"
proof -
  from assms have m: "perceive ag = tr_perceive" "decide ag = tr_decide"
    "act ag = tr_act (clock ag) ''Training Agent''"
    "reflect ag = tr_reflect (clock ag) ''Training Agent''"
    by (simp_all add: is_TrainingAgent_def)
  let ?pc = "c\<lparr>trainingPerception := Some \<lparr>companyWideModules = tr_companyWideModules,
                 roleModules = Some rms,
                 completedModules = or_empty (completedTraining (employee c)),
                 department_t = d\<rparr>\<rparr>"
  define acts where "acts =
      (if length (tr_pendingModules rms (employee c)) > 0
       then [Assign_modules (tr_pendingModules rms (employee c))] else [])
      @ (if \<not> flag (managerMeetingScheduled (employee c)) then [Schedule_manager_meeting] else [])
      @ (if \<not> flag (teamIntroScheduled (employee c)) then [Schedule_team_intro] else [])"
  have p: "perceive ag c (start_log ag) = (Inr ?pc, start_log ag)"
    by (simp add: m tr_perceive_def dept path)
  have d: "decide ag ?pc (start_log ag) = (Inr acts, start_log ag)"
    by (simp add: m tr_decide_def Let_def tr_pendingModules_def acts_def)
  have fe: "fst (fold (tr_act_step (clock ag) ''Training Agent'') acts (employee c, start_log ag))
      = tr_effect rms (employee c)"
    unfolding acts_def by (rule tr_fold_effect [OF ts])
  have a: "\<exists>lg3 lg4. act ag ?pc acts (start_log ag) = (Inr (?pc\<lparr>employee := tr_effect rms (employee c)\<rparr>), lg3)
      \<and> reflect ag (?pc\<lparr>employee := tr_effect rms (employee c)\<rparr>) lg3
          = (Inr (True, ?pc\<lparr>employee := tr_effect rms (employee c)\<rparr>), lg4)"
    using fe by (auto simp: m tr_act_def tr_reflect_def Let_def ts split: prod.splits)
  have n: "acts = [] \<Longrightarrow> ?pc\<lparr>employee := tr_effect rms (employee c)\<rparr> = ?pc"
    using ts unfolding acts_def
    by (cases "employee c") (simp add: tr_effect_def tr_tasks_def or_empty_def split: if_splits)
  from run_pass [OF p d a n] show ?thesis by auto
qed

lemma tr_run_rejects_department:
  assumes "is_TrainingAgent ag"
    and dept: "lower_or ''default'' (getp (department (employee c))) = Inl err"
  shows "fst (run ag c) = Inl err"
proof -
  from assms have "perceive ag c (start_log ag) = (Inl err, start_log ag)"
    by (simp add: is_TrainingAgent_def tr_perceive_def)
  then show ?thesis by (rule run_perceive_throws)
qed

lemma tr_run_rejects_path:
  assumes "is_TrainingAgent ag"
    and dept: "lower_or ''default'' (getp (department (employee c))) = Inr d"
    and "tr_rolePath d = None"
  shows "fst (run ag c) = Inl (TypeError ''roleModules is not iterable'')"
proof -
  let ?pc = "c\<lparr>trainingPerception := Some \<lparr>companyWideModules = tr_companyWideModules,
                 roleModules = None,
                 completedModules = or_empty (completedTraining (employee c)),
                 department_t = d\<rparr>\<rparr>"
  from assms have p: "perceive ag c (start_log ag) = (Inr ?pc, start_log ag)"
    by (simp add: is_TrainingAgent_def tr_perceive_def)
  from assms have "decide ag ?pc (start_log ag)
      = (Inl (TypeError ''roleModules is not iterable''), start_log ag)"
    by (simp add: is_TrainingAgent_def tr_decide_def)
  with p show ?thesis by (rule run_decide_throws)
qed

lemma tr_run_cases:
  assumes "is_TrainingAgent ag" and ts: "tasks (employee c) = Some ts"
  shows "(\<exists>err. fst (run ag c) = Inl err)
     \<or> (\<exists>c' lg' d rms. fst (run ag c) = Inr (c', lg')
           \<and> lower_or ''default'' (getp (department (employee c))) = Inr d
           \<and> tr_rolePath d = Some rms
           \<and> employee c' = tr_effect rms (employee c))"
proof (cases "lower_or ''default'' (getp (department (employee c)))")
  case (Inl err)
  with assms(1) show ?thesis by (blast intro: tr_run_rejects_department)
next
  case (Inr d)
  show ?thesis
  proof (cases "tr_rolePath d")
    case None
    with assms(1) Inr show ?thesis by (blast dest: tr_run_rejects_path)
  next
    case (Some rms)
    from tr_run [OF assms Inr Some] Inr Some show ?thesis by blast
  qed
qed

lemma bd_loop_effect_fst:
  assumes "tasks emp = Some ts"
  shows "fst (bd_act_loop clk ''Buddy Agent''
           ((if \<not> has_buddy emp then [Assign_buddy (Some best)] else [])
            @ (if \<not> flag (checkInsScheduled emp) then [Schedule_check_ins] else []))
           (emp, lg)) = Inr (bd_effect best emp)"
  using assms
  by (cases emp) (simp add: bd_effect_def bd_tasks_def push_tasks_def or_empty_def has_buddy_def)

lemma bd_run:
  assumes "is_BuddyAgent buddyPool ag" and ts: "tasks (employee c) = Some ts"
    and dept: "lower_or [] (getp (department (employee c))) = Inr d"
    and best: "\<not> has_buddy (employee c) \<Longrightarrow> bd_ranked buddyPool d = best # rest"
  shows "\<exists>c' lg'. fst (run ag c) = Inr (c', lg') \<and> employee c' = bd_effect best (employee c)"
proof -
  from assms have m: "perceive ag = bd_perceive buddyPool" "decide ag = bd_decide"
    "act ag = bd_act (clock ag) ''Buddy Agent''"
    "reflect ag = bd_reflect (clock ag) ''Buddy Agent''"
    by (simp_all add: is_BuddyAgent_def)
  let ?pc = "c\<lparr>buddyPerception := Some \<lparr>candidates = take 3 (bd_ranked buddyPool d),
                 alreadyAssigned = has_buddy (employee c)\<rparr>\<rparr>"
  define acts where "acts =
      (if \<not> has_buddy (employee c) then [Assign_buddy (Some best)] else [])
      @ (if \<not> flag (checkInsScheduled (employee c)) then [Schedule_check_ins] else [])"
  have p: "perceive ag c (start_log ag) = (Inr ?pc, start_log ag)"
    by (simp add: m bd_perceive_def dept bd_ranked_def has_buddy_def Let_def)
  have d: "decide ag ?pc (start_log ag) = (Inr acts, start_log ag)"
    using best by (auto simp: m bd_decide_def Let_def acts_def)
  have fe: "fst (bd_act_loop (clock ag) ''Buddy Agent'' acts (employee c, start_log ag))
      = Inr (bd_effect best (employee c))"
    unfolding acts_def by (rule bd_loop_effect_fst [OF ts])
  have a: "\<exists>lg3 lg4. act ag ?pc acts (start_log ag) = (Inr (?pc\<lparr>employee := bd_effect best (employee c)\<rparr>), lg3)
      \<and> reflect ag (?pc\<lparr>employee := bd_effect best (employee c)\<rparr>) lg3
          = (Inr (True, ?pc\<lparr>employee := bd_effect best (employee c)\<rparr>), lg4)"
    using fe by (auto simp: m bd_act_def bd_reflect_def Let_def ts split: prod.splits sum.splits)
  have n: "acts = [] \<Longrightarrow> ?pc\<lparr>employee := bd_effect best (employee c)\<rparr> = ?pc"
    using ts unfolding acts_def
    by (cases "employee c") (simp add: bd_effect_def bd_tasks_def or_empty_def split: if_splits)
  from run_pass [OF p d a n] show ?thesis by auto
qed

text \<open>With no buddy assigned the agent acts, and \<^verbatim>\<open>act\<close> creates the task list of an
  employee that has none.\<close>

lemma bd_effect_init_tasks: "bd_effect best (init_tasks emp) = bd_effect best emp"
  by (cases emp)
     (simp add: bd_effect_def bd_tasks_def init_tasks_def or_empty_def has_buddy_def
        split: option.splits)

lemma bd_run_assigns:
  assumes "is_BuddyAgent buddyPool ag"
    and dept: "lower_or [] (getp (department (employee c))) = Inr d"
    and nb: "\<not> has_buddy (employee c)"
    and best: "bd_ranked buddyPool d = best # rest"
  shows "\<exists>c' lg'. fst (run ag c) = Inr (c', lg') \<and> employee c' = bd_effect best (employee c)"
proof -
  from assms have m: "perceive ag = bd_perceive buddyPool" "decide ag = bd_decide"
    "act ag = bd_act (clock ag) ''Buddy Agent''"
    "reflect ag = bd_reflect (clock ag) ''Buddy Agent''"
    by (simp_all add: is_BuddyAgent_def)
  let ?pc = "c\<lparr>buddyPerception := Some \<lparr>candidates = take 3 (bd_ranked buddyPool d),
                 alreadyAssigned = has_buddy (employee c)\<rparr>\<rparr>"
  define acts where "acts =
      (if \<not> has_buddy (employee c) then [Assign_buddy (Some best)] else [])
      @ (if \<not> flag (checkInsScheduled (employee c)) then [Schedule_check_ins] else [])"
  have p: "perceive ag c (start_log ag) = (Inr ?pc, start_log ag)"
    by (simp add: m bd_perceive_def dept bd_ranked_def has_buddy_def Let_def)
  have d: "decide ag ?pc (start_log ag) = (Inr acts, start_log ag)"
    using best by (auto simp: m bd_decide_def Let_def acts_def)
  have i: "tasks (init_tasks (employee c)) = Some (or_empty (tasks (employee c)))"
    by (simp add: init_tasks_def or_empty_def split: option.splits)
  have h: "has_buddy (init_tasks (employee c)) = has_buddy (employee c)"
    "flag (checkInsScheduled (init_tasks (employee c))) = flag (checkInsScheduled (employee c))"
    by (simp_all add: init_tasks_def has_buddy_def split: option.splits)
  have fe: "fst (bd_act_loop (clock ag) ''Buddy Agent'' acts (init_tasks (employee c), start_log ag))
      = Inr (bd_effect best (employee c))"
    using bd_loop_effect_fst [OF i, of "clock ag" best "start_log ag"]
    unfolding acts_def h bd_effect_init_tasks .
  have a: "\<exists>lg3 lg4. act ag ?pc acts (start_log ag) = (Inr (?pc\<lparr>employee := bd_effect best (employee c)\<rparr>), lg3)
      \<and> reflect ag (?pc\<lparr>employee := bd_effect best (employee c)\<rparr>) lg3
          = (Inr (True, ?pc\<lparr>employee := bd_effect best (employee c)\<rparr>), lg4)"
    using fe by (auto simp: m bd_act_def bd_reflect_def Let_def split: prod.splits sum.splits)
  have n: "acts = [] \<Longrightarrow> ?pc\<lparr>employee := bd_effect best (employee c)\<rparr> = ?pc"
    using nb by (simp add: acts_def)
  from run_pass [OF p d a n] show ?thesis by auto
qed

lemma bd_run_rejects_department:
  assumes "is_BuddyAgent buddyPool ag"
    and dept: "lower_or [] (getp (department (employee c))) = Inl err"
  shows "fst (run ag c) = Inl err"
proof -
  from assms have "perceive ag c (start_log ag) = (Inl err, start_log ag)"
    by (simp add: is_BuddyAgent_def bd_perceive_def)
  then show ?thesis by (rule run_perceive_throws)
qed

lemma bd_run_rejects_empty:
  assumes "is_BuddyAgent buddyPool ag"
    and dept: "lower_or [] (getp (department (employee c))) = Inr d"
    and "\<not> has_buddy (employee c)" and "bd_ranked buddyPool d = []"
  shows "fst (run ag c) = Inl (TypeError ''Cannot read properties of undefined (reading name)'')"
proof -
  from assms have m: "perceive ag = bd_perceive buddyPool" "decide ag = bd_decide"
    "act ag = bd_act (clock ag) ''Buddy Agent''"
    by (simp_all add: is_BuddyAgent_def)
  let ?pc = "c\<lparr>buddyPerception := Some \<lparr>candidates = [], alreadyAssigned = False\<rparr>\<rparr>"
  let ?acts = "Assign_buddy None
      # (if \<not> flag (checkInsScheduled (employee c)) then [Schedule_check_ins] else [])"
  from assms have p: "perceive ag c (start_log ag) = (Inr ?pc, start_log ag)"
    by (simp add: m bd_perceive_def bd_ranked_def has_buddy_def Let_def)
  have d: "decide ag ?pc (start_log ag) = (Inr ?acts, start_log ag)"
    by (simp add: m bd_decide_def Let_def)
  have a: "act ag ?pc ?acts (start_log ag)
      = (Inl (TypeError ''Cannot read properties of undefined (reading name)''), start_log ag)"
    by (simp add: m bd_act_def)
  from p d _ a show ?thesis by (rule run_act_throws) simp
qed

lemma bd_run_cases:
  assumes "is_BuddyAgent buddyPool ag" and ts: "tasks (employee c) = Some ts"
  shows "(\<exists>err. fst (run ag c) = Inl err)
     \<or> (\<exists>c' lg' best. fst (run ag c) = Inr (c', lg')
           \<and> employee c' = bd_effect best (employee c))"
proof (cases "lower_or [] (getp (department (employee c)))")
  case (Inl err)
  with assms(1) show ?thesis by (blast intro: bd_run_rejects_department)
next
  case (Inr d)
  show ?thesis
  proof (cases "has_buddy (employee c)")
    case True
    from bd_run [OF assms Inr, of undefined undefined] True show ?thesis by blast
  next
    case False
    show ?thesis
    proof (cases "bd_ranked buddyPool d")
      case Nil
      with assms(1) Inr False show ?thesis by (blast dest: bd_run_rejects_empty)
    next
      case (Cons best rest)
      from bd_run [OF assms Inr, of best rest] Cons show ?thesis by blast
    qed
  qed
qed

section \<open>Properties of the orchestrator\<close>

lemma fold_slots_length:
  "length (fold (\<lambda>i slots. if i < length slots then slots[i := Some (ps ! i)] else slots) order s)
     = length s"
  by (induction order arbitrary: s) simp_all

lemma fold_slots_nth:
  "j < length s \<Longrightarrow>
   fold (\<lambda>i slots. if i < length slots then slots[i := Some (ps ! i)] else slots) order s ! j
     = (if j \<in> set order then Some (ps ! j) else s ! j)"
proof (induction order arbitrary: s)
  case Nil
  show ?case by simp
next
  case (Cons i order)
  then show ?case by (auto simp: nth_list_update)
qed

lemma those_map_Some: "those (map Some xs) = Some xs"
  by (induction xs) simp_all

lemma allSettled_all:
  assumes "{0..<length ps} \<subseteq> set order"
  shows "allSettled order ps = Some ps"
proof -
  let ?s = "fold (\<lambda>i slots. if i < length slots then slots[i := Some (ps ! i)] else slots)
              order (replicate (length ps) None)"
  have "?s = map Some ps"
  proof (rule nth_equalityI)
    show "length ?s = length (map Some ps)" by (simp add: fold_slots_length)
  next
    fix j assume "j < length ?s"
    then have j: "j < length ps" by (simp add: fold_slots_length)
    with assms have "j \<in> set order" by auto
    with j show "?s ! j = map Some ps ! j"
      by (simp add: fold_slots_nth)
  qed
  then show ?thesis by (simp add: allSettled_def those_map_Some)
qed

lemma allSettled_perm4:
  assumes "mset order = mset [0, 1, 2, 3 :: nat]" and "length ps = 4"
  shows "allSettled order ps = Some ps"
proof -
  from assms(1) have "set order = set [0, 1, 2, 3 :: nat]" by (rule mset_eq_setD)
  then have "{0..<length ps} \<subseteq> set order" using assms(2) by auto
  then show ?thesis by (rule allSettled_all)
qed

lemma merge_result_parts:
  "merge_result (r, nm) (ts, logs, emp) =
     (ts @ result_tasks r, assign_key nm (result_log nm r) logs, result_overlay r emp)"
  by (cases r) (auto simp: result_tasks_def result_log_def result_overlay_def)

lemma settled_results_length [simp]: "length (settled_results orch ev d) = 4"
  by (simp add: settled_results_def agent_runs_def)

lemma list4: "length xs = 4 \<Longrightarrow> \<exists>a b c d. xs = [a, b, c, d]"
  by (cases xs; simp; rename_tac ys; case_tac ys; simp; rename_tac zs; case_tac zs; simp;
      rename_tac ws; case_tac ws; simp)

text \<open>The plan of a call in terms of the four settled results.\<close>

lemma onboard_plan:
  assumes "mset order = mset [0, 1, 2, 3 :: nat]"
  shows "\<exists>p orch'. onboard orch ev order d = Some (p, orch')
     \<and> tasks (employee_p p) = Some (concat (map result_tasks (settled_results orch ev d)))
     \<and> employee_p p =
         (fold result_overlay (settled_results orch ev d) (shared_employee ev d))
           \<lparr>tasks := Some (concat (map result_tasks (settled_results orch ev d)))\<rparr>
     \<and> agentLogs p = map (\<lambda>(r, nm). (nm, result_log nm r)) (zip (settled_results orch ev d) agentNames)
     \<and> summary_p p = buildSummary (employee_p p) (agentLogs p) (startTime ev) (endTime ev)
     \<and> timeline p = buildTimeline (concat (map result_tasks (settled_results orch ev d)))
     \<and> agents_of orch' = map snd (agent_runs orch (shared_employee ev d))"
proof -
  obtain a b c e where rs: "settled_results orch ev d = [a, b, c, e]"
    using list4 [OF settled_results_length] by blast
  have len: "length (map fst (agent_runs orch (shared_employee ev d))) = 4"
    by (simp add: agent_runs_def)
  have runs: "map snd (agent_runs orch (shared_employee ev d))
     = [snd (agent_runs orch (shared_employee ev d) ! 0), snd (agent_runs orch (shared_employee ev d) ! 1),
        snd (agent_runs orch (shared_employee ev d) ! 2), snd (agent_runs orch (shared_employee ev d) ! 3)]"
    by (simp add: agent_runs_def)
  from allSettled_perm4 [OF assms len] rs runs show ?thesis
    by (simp add: onboard_def Let_def settled_results_def merge_result_parts agentNames_def
        agents_of_def)
qed

lemma is_new_agents [simp]:
  "is_HRAgent (HRAgent clk)" "is_ITSetupAgent (ITSetupAgent clk)"
  "is_TrainingAgent (TrainingAgent clk)" "is_BuddyAgent buddyPool (BuddyAgent buddyPool clk)"
  by (simp_all add: is_HRAgent_def HRAgent_def is_ITSetupAgent_def ITSetupAgent_def
      is_TrainingAgent_def TrainingAgent_def is_BuddyAgent_def BuddyAgent_def)

lemma is_Orchestrator_new [simp]:
  "is_Orchestrator buddyPool (new_Orchestrator c1 c2 c3 c4 buddyPool)"
  by (simp add: is_Orchestrator_def new_Orchestrator_def)

lemma copyFor_tasks [simp]: "tasks (employee (copyFor emp)) = Some []"
  by (simp add: copyFor_def)

text \<open>
  Claim C1: for every run of onboard in which all four agents fulfil, whatever the order in
  which the four promises settle, the task list of the returned employee is the tasks of the
  HR result, then those of the IT result, then Training, then Buddy, each as the agent left
  them.
\<close>

theorem onboard_merge_order:
  assumes "mset order = mset [0, 1, 2, 3 :: nat]"
    and "fst (run (hr_agent orch) (copyFor (shared_employee ev d))) = Inr (c_hr, l_hr)"
    and "fst (run (it_agent orch) (copyFor (shared_employee ev d))) = Inr (c_it, l_it)"
    and "fst (run (training_agent orch) (copyFor (shared_employee ev d))) = Inr (c_tr, l_tr)"
    and "fst (run (buddy_agent orch) (copyFor (shared_employee ev d))) = Inr (c_bd, l_bd)"
  shows "\<exists>p orch'. onboard orch ev order d = Some (p, orch')
     \<and> tasks (employee_p p) =
         Some (or_empty (tasks (employee c_hr)) @ or_empty (tasks (employee c_it))
               @ or_empty (tasks (employee c_tr)) @ or_empty (tasks (employee c_bd)))"
proof -
  from assms(2-5) have "concat (map result_tasks (settled_results orch ev d)) =
      or_empty (tasks (employee c_hr)) @ or_empty (tasks (employee c_it))
               @ or_empty (tasks (employee c_tr)) @ or_empty (tasks (employee c_bd))"
    by (simp add: settled_results_def agent_runs_def result_tasks_def)
  with onboard_plan [OF assms(1), of orch ev d] show ?thesis by auto
qed


lemma copyFor_shared [simp]:
  "employee (copyFor (shared_employee ev d)) = shared_employee ev d"
  by (simp add: copyFor_def shared_employee_def or_empty_def)

lemma shared_department [simp]: "department (shared_employee ev d) = department d"
  by (simp add: shared_employee_def)

lemma ana_ranked:
  "\<exists>rest. bd_ranked buddyPool0 ''engineering''
     = score_buddy ''engineering'' (buddyPool0 ! 5) # rest"
  unfolding bd_ranked_def buddyPool0_def double_literals
  by (simp add: sort_by_def score_buddy_def by_score_def eval_double)


lemma ana_lower:
  "lower_or ''default'' (getp (department ana)) = Inr ''engineering''"
  "lower_or [] (getp (department ana)) = Inr ''engineering''"
  by (simp_all add: ana_def eval_lower)

lemma ana_address: "it_address (shared_employee env0 ana) = Inr ''ana.lopez@company.com''"
  by (simp add: it_address_def shared_employee_def ana_def eval_lower)

lemma ana_hr_ids:
  "map id_t (hr_tasks (shared_employee env0 ana)) =
     [''hr-doc-government_id'', ''hr-doc-tax_w4'', ''hr-doc-i9_form'', ''hr-doc-direct_deposit'',
      ''hr-doc-emergency_contact'', ''hr-doc-nda'', ''hr-policy-code_of_conduct'',
      ''hr-policy-data_privacy'', ''hr-policy-remote_work'', ''hr-policy-anti_harassment'',
      ''hr-benefits-enrollment'']"
  by (simp add: hr_tasks_def hr_missing_def hr_pendingPolicies_def shared_employee_def ana_def
      or_empty_def hr_requiredDocs_def hr_policies_def hr_doc_task_def hr_policy_task_def
      hr_benefits_task_def)


lemma ana_it_ids:
  "map id_t (it_tasks it_engineering addr (shared_employee env0 ana)) =
     [''it-email-setup'', ''it-sw-ide-license'', ''it-sw-github-enterprise'', ''it-sw-jira'',
      ''it-sw-slack'', ''it-sw-aws-console'', ''it-hw-macbook-pro-16-'',
      ''it-hw-external-monitor-27-'', ''it-hw-mechanical-keyboard'', ''it-hw-usb-c-hub'',
      ''it-access-vpn'', ''it-access-ci-cd-pipeline'', ''it-access-staging-servers'',
      ''it-access-code-repositories'']"
  by (simp add: it_tasks_def it_neededSoftware_def it_neededHardware_def shared_employee_def
      ana_def or_empty_def it_engineering_def it_email_task_def it_sw_task_def it_hw_task_def
      it_access_task_def eval_char)

lemma ana_tr_ids:
  "map id_t (tr_tasks tr_engineering (shared_employee env0 ana)) =
     [''training-company-overview'', ''training-security-awareness'', ''training-dei-training'',
      ''training-tools-intro'', ''training-eng-architecture'', ''training-eng-git-workflow'',
      ''training-eng-ci-cd'', ''training-eng-oncall'', ''training-manager-1on1'',
      ''training-team-intro'']"
  by (simp add: tr_tasks_def tr_pendingModules_def shared_employee_def ana_def or_empty_def
      tr_companyWideModules_def tr_engineering_def tr_week1_task_def tr_week2_task_def
      tr_manager_task_def tr_team_task_def)

lemma ana_bd_ids:
  "map id_t (bd_tasks best (shared_employee env0 ana)) =
     [''buddy-intro-meeting'', ''buddy-checkin-day7'', ''buddy-checkin-day14'',
      ''buddy-checkin-day30'', ''buddy-checkin-day60'', ''buddy-checkin-day90'']"
  by (simp add: bd_tasks_def has_buddy_def shared_employee_def ana_def bd_checkIns_def
      bd_intro_task_def bd_checkin_task_def string_of_nat.simps eval_char)


lemma effect_tasks [simp]:
  "or_empty (tasks (hr_effect emp)) = or_empty (tasks emp) @ hr_tasks emp"
  "or_empty (tasks (it_effect pr addr emp)) = or_empty (tasks emp) @ it_tasks pr addr emp"
  "or_empty (tasks (tr_effect rms emp)) = or_empty (tasks emp) @ tr_tasks rms emp"
  "or_empty (tasks (bd_effect best emp)) = or_empty (tasks emp) @ bd_tasks best emp"
  by (simp_all add: hr_effect_def it_effect_def tr_effect_def bd_effect_def or_empty_def)

lemma shared_tasks [simp]: "tasks (shared_employee ev d) = Some []"
  by (simp add: shared_employee_def)

lemma or_empty_simps [simp]: "or_empty None = []" "or_empty (Some xs) = xs"
  by (simp_all add: or_empty_def)

lemma orch0_agents:
  "is_HRAgent (hr_agent orch0)" "is_ITSetupAgent (it_agent orch0)"
  "is_TrainingAgent (training_agent orch0)" "is_BuddyAgent buddyPool0 (buddy_agent orch0)"
  by (simp_all add: orch0_def new_Orchestrator_def)


lemma ana_flags: "\<not> flag (emailProvisioned (shared_employee env0 ana))"
    "\<not> has_buddy (shared_employee env0 ana)"
    by (simp_all add: shared_employee_def ana_def has_buddy_def)

lemma ana_hr_run:
  assumes "is_HRAgent ag"
  shows "\<exists>c_hr l_hr. fst (run ag (copyFor (shared_employee env0 ana))) = Inr (c_hr, l_hr)
      \<and> employee c_hr = hr_effect (shared_employee env0 ana)"
  using hr_run [OF assms, of "copyFor (shared_employee env0 ana)" "[]"] by simp

lemma ana_it_run:
  assumes "is_ITSetupAgent ag"
  shows "\<exists>c_it l_it. fst (run ag (copyFor (shared_employee env0 ana))) = Inr (c_it, l_it)
     \<and> employee c_it = it_effect it_engineering ''ana.lopez@company.com'' (shared_employee env0 ana)"
proof -
  have 1: "lower_or ''default'' (getp (department (employee (copyFor (shared_employee env0 ana)))))
     = Inr ''engineering''"
    by (simp add: ana_lower)
  have 2: "it_profile ''engineering'' = Some it_engineering" by (simp add: it_profile_def)
  have 3: "it_address (employee (copyFor (shared_employee env0 ana))) = Inr ''ana.lopez@company.com''"
    by (simp add: ana_address)
  from it_run [OF assms copyFor_tasks 1 2 3] show ?thesis by simp
qed


lemma ana_tr_run:
  assumes "is_TrainingAgent ag"
  shows "\<exists>c_tr l_tr. fst (run ag (copyFor (shared_employee env0 ana))) = Inr (c_tr, l_tr)
     \<and> employee c_tr = tr_effect tr_engineering (shared_employee env0 ana)"
proof -
  have 1: "lower_or ''default'' (getp (department (employee (copyFor (shared_employee env0 ana)))))
     = Inr ''engineering''"
    by (simp add: ana_lower)
  have 2: "tr_rolePath ''engineering'' = Some tr_engineering" by (simp add: tr_rolePath_def)
  from tr_run [OF assms copyFor_tasks 1 2] show ?thesis by simp
qed

lemma ana_bd_run:
  assumes "is_BuddyAgent buddyPool0 ag"
  shows "\<exists>c_bd l_bd. fst (run ag (copyFor (shared_employee env0 ana))) = Inr (c_bd, l_bd)
     \<and> employee c_bd = bd_effect (score_buddy ''engineering'' (buddyPool0 ! 5)) (shared_employee env0 ana)"
proof -
  have 1: "lower_or [] (getp (department (employee (copyFor (shared_employee env0 ana)))))
     = Inr ''engineering''"
    by (simp add: ana_lower)
  from ana_ranked obtain rest where
    2: "bd_ranked buddyPool0 ''engineering'' = score_buddy ''engineering'' (buddyPool0 ! 5) # rest" ..
  from bd_run [OF assms copyFor_tasks 1 2] show ?thesis by simp
qed


lemma ana_all_ids:
  "map id_t (hr_tasks (shared_employee env0 ana))
   @ map id_t (it_tasks it_engineering ''ana.lopez@company.com'' (shared_employee env0 ana))
   @ map id_t (tr_tasks tr_engineering (shared_employee env0 ana))
   @ map id_t (bd_tasks (score_buddy ''engineering'' (buddyPool0 ! 5)) (shared_employee env0 ana))
   = ana_ids"
  unfolding ana_hr_ids ana_it_ids ana_tr_ids ana_bd_ids ana_ids_def by simp

theorem onboard_merge_order_witness:
  "\<exists>p orch'. onboard orch0 env0 [2, 0, 3, 1] ana = Some (p, orch')
     \<and> map id_t (or_empty (tasks (employee_p p))) = ana_ids"
proof -
  let ?e = "shared_employee env0 ana"
  let ?c = "copyFor ?e"
  from ana_hr_run [OF orch0_agents(1)] obtain c_hr l_hr where hr: "fst (run (hr_agent orch0) ?c) = Inr (c_hr, l_hr)"
      "employee c_hr = hr_effect ?e"
    by blast
  from ana_it_run [OF orch0_agents(2)] obtain c_it l_it where it: "fst (run (it_agent orch0) ?c) = Inr (c_it, l_it)"
      "employee c_it = it_effect it_engineering ''ana.lopez@company.com'' ?e"
    by blast
  from ana_tr_run [OF orch0_agents(3)] obtain c_tr l_tr where tr: "fst (run (training_agent orch0) ?c) = Inr (c_tr, l_tr)"
      "employee c_tr = tr_effect tr_engineering ?e"
    by blast
  from ana_bd_run [OF orch0_agents(4)] obtain c_bd l_bd where bd: "fst (run (buddy_agent orch0) ?c) = Inr (c_bd, l_bd)"
      "employee c_bd = bd_effect (score_buddy ''engineering'' (buddyPool0 ! 5)) ?e"
    by blast
  have perm: "mset [2, 0, 3, 1] = mset [0, 1, 2, 3 :: nat]" by simp
  from onboard_merge_order [OF perm hr(1) it(1) tr(1) bd(1)]
  obtain p orch' where p: "onboard orch0 env0 [2, 0, 3, 1] ana = Some (p, orch')"
    "tasks (employee_p p) =
         Some (or_empty (tasks (employee c_hr)) @ or_empty (tasks (employee c_it))
               @ or_empty (tasks (employee c_tr)) @ or_empty (tasks (employee c_bd)))"
    by blast
  from p(2) have "map id_t (or_empty (tasks (employee_p p))) =
      map id_t (hr_tasks ?e) @ map id_t (it_tasks it_engineering ''ana.lopez@company.com'' ?e)
      @ map id_t (tr_tasks tr_engineering ?e)
      @ map id_t (bd_tasks (score_buddy ''engineering'' (buddyPool0 ! 5)) ?e)"
    by (simp add: hr(2) it(2) tr(2) bd(2))
  then have "map id_t (or_empty (tasks (employee_p p))) = ana_ids"
    by (simp only: ana_all_ids)
  with p(1) show ?thesis by blast
qed

text \<open>
  Claim C2: for every run of onboard in which exactly one agent's run rejects and the other
  three fulfil, onboard still resolves with a plan; the plan's agentLogs entry for the failed
  agent is the single synthetic entry with action 'error' and the message of the error; the
  merged tasks and the merged employee fields are those of the other three results alone,
  every task of the other three is in the merged record, and the plan has its employee,
  its summary (with status 'error' and one action for the failed agent), the logs of all four
  agents and the timeline of the merged tasks.
\<close>

theorem onboard_isolates_failure:
  assumes "mset order = mset [0, 1, 2, 3 :: nat]"
    and "k < 4"
    and "settled_results orch ev d ! k = Inl err"
    and "\<forall>j<4. j \<noteq> k \<longrightarrow> fulfilled (settled_results orch ev d ! j)"
  shows "\<exists>p orch'. onboard orch ev order d = Some (p, orch')
     \<and> map_of (agentLogs p) (agentNames ! k) =
         Some [\<lparr>timestamp = None, agent_l = agentNames ! k, action = ''error'',
                 detail = message err\<rparr>]
     \<and> tasks (employee_p p) =
         Some (concat (map result_tasks
                 (take k (settled_results orch ev d) @ drop (Suc k) (settled_results orch ev d))))
     \<and> employee_p p =
         (fold result_overlay
            (take k (settled_results orch ev d) @ drop (Suc k) (settled_results orch ev d))
            (shared_employee ev d))
           \<lparr>tasks := tasks (employee_p p)\<rparr>
     \<and> (\<forall>j<4. j \<noteq> k \<longrightarrow>
           set (result_tasks (settled_results orch ev d ! j)) \<subseteq> set (or_empty (tasks (employee_p p))))
     \<and> map fst (agentLogs p) = agentNames
     \<and> map fst (agentSummaries (summary_p p)) = agentNames
     \<and> map_of (agentSummaries (summary_p p)) (agentNames ! k) =
         Some \<lparr>totalActions = 1, status_s = ''error'', keyEvents = [message err]\<rparr>
     \<and> totalTasks (summary_p p) = length (or_empty (tasks (employee_p p)))
     \<and> timeline p = buildTimeline (or_empty (tasks (employee_p p)))"
proof -
  obtain a b c e where rs: "settled_results orch ev d = [a, b, c, e]"
    using list4 [OF settled_results_length] by blast
  from onboard_plan [OF assms(1), of orch ev d] obtain p orch' where
    p: "onboard orch ev order d = Some (p, orch')"
    and t: "tasks (employee_p p) = Some (concat (map result_tasks (settled_results orch ev d)))"
    and emp: "employee_p p =
         (fold result_overlay (settled_results orch ev d) (shared_employee ev d))
           \<lparr>tasks := Some (concat (map result_tasks (settled_results orch ev d)))\<rparr>"
    and logs: "agentLogs p = map (\<lambda>(r, nm). (nm, result_log nm r)) (zip (settled_results orch ev d) agentNames)"
    and sm: "summary_p p = buildSummary (employee_p p) (agentLogs p) (startTime ev) (endTime ev)"
    and tl: "timeline p = buildTimeline (concat (map result_tasks (settled_results orch ev d)))"
    by blast
  from assms(2) have "k = 0 \<or> k = 1 \<or> k = 2 \<or> k = 3" by arith
  then have core: "map_of (agentLogs p) (agentNames ! k) =
         Some [\<lparr>timestamp = None, agent_l = agentNames ! k, action = ''error'',
                 detail = message err\<rparr>]
     \<and> concat (map result_tasks (settled_results orch ev d)) =
         concat (map result_tasks
                 (take k (settled_results orch ev d) @ drop (Suc k) (settled_results orch ev d)))
     \<and> fold result_overlay (settled_results orch ev d) (shared_employee ev d) =
         fold result_overlay
            (take k (settled_results orch ev d) @ drop (Suc k) (settled_results orch ev d))
            (shared_employee ev d)
     \<and> map_of (map (\<lambda>(nm, lg). (nm, summarize_agent lg)) (agentLogs p)) (agentNames ! k) =
         Some \<lparr>totalActions = 1, status_s = ''error'', keyEvents = [message err]\<rparr>"
    using assms(3)
    by (elim disjE)
       (simp_all add: rs logs agentNames_def result_log_def result_tasks_def result_overlay_def
          summarize_agent_def)
  have sub: "\<forall>j<4. j \<noteq> k \<longrightarrow>
           set (result_tasks (settled_results orch ev d ! j)) \<subseteq> set (or_empty (tasks (employee_p p)))"
  proof (intro allI impI)
    fix j :: nat assume "j < 4" "j \<noteq> k"
    then have "settled_results orch ev d ! j \<in> set (settled_results orch ev d)" by simp
    then show "set (result_tasks (settled_results orch ev d ! j)) \<subseteq> set (or_empty (tasks (employee_p p)))"
      by (auto simp: t)
  qed
  have names: "map fst (agentLogs p) = agentNames"
    by (simp add: logs rs agentNames_def)
  have names': "map fst (agentSummaries (summary_p p)) = agentNames"
    by (simp add: sm buildSummary_def Let_def logs rs agentNames_def)
  have tot: "totalTasks (summary_p p) = length (or_empty (tasks (employee_p p)))"
    by (simp add: sm buildSummary_def Let_def)
  from p t emp core sub names names' tot tl show ?thesis
    by (simp add: sm buildSummary_def Let_def)
qed


lemma orch_nobuddy_agents:
  "is_HRAgent (hr_agent orch_nobuddy)" "is_ITSetupAgent (it_agent orch_nobuddy)"
  "is_TrainingAgent (training_agent orch_nobuddy)" "is_BuddyAgent [] (buddy_agent orch_nobuddy)"
  by (simp_all add: orch_nobuddy_def new_Orchestrator_def)

lemma settled_results_nth:
  "settled_results orch ev d ! 0 = fst (run (hr_agent orch) (copyFor (shared_employee ev d)))"
  "settled_results orch ev d ! 1 = fst (run (it_agent orch) (copyFor (shared_employee ev d)))"
  "settled_results orch ev d ! 2 = fst (run (training_agent orch) (copyFor (shared_employee ev d)))"
  "settled_results orch ev d ! 3 = fst (run (buddy_agent orch) (copyFor (shared_employee ev d)))"
  by (simp_all add: settled_results_def agent_runs_def)

lemma settled_results_list:
  "settled_results orch ev d =
     [fst (run (hr_agent orch) (copyFor (shared_employee ev d))),
      fst (run (it_agent orch) (copyFor (shared_employee ev d))),
      fst (run (training_agent orch) (copyFor (shared_employee ev d))),
      fst (run (buddy_agent orch) (copyFor (shared_employee ev d)))]"
  by (simp add: settled_results_def agent_runs_def)

lemma effect_buddy_fields [simp]:
  "buddy (hr_effect emp) = buddy emp" "checkInsScheduled (hr_effect emp) = checkInsScheduled emp"
  "buddy (it_effect pr addr emp) = buddy emp"
  "checkInsScheduled (it_effect pr addr emp) = checkInsScheduled emp"
  "buddy (tr_effect rms emp) = buddy emp"
  "checkInsScheduled (tr_effect rms emp) = checkInsScheduled emp"
  by (simp_all add: hr_effect_def it_effect_def tr_effect_def)

theorem onboard_isolates_failure_witness:
  "\<exists>p orch'. onboard orch_nobuddy env0 [3, 2, 1, 0] ana = Some (p, orch')
     \<and> map_of (agentLogs p) ''buddy'' =
         Some [\<lparr>timestamp = None, agent_l = ''buddy'', action = ''error'',
                 detail = ''Cannot read properties of undefined (reading name)''\<rparr>]
     \<and> map id_t (or_empty (tasks (employee_p p)))
         @ [''buddy-intro-meeting'', ''buddy-checkin-day7'', ''buddy-checkin-day14'',
            ''buddy-checkin-day30'', ''buddy-checkin-day60'', ''buddy-checkin-day90''] = ana_ids
     \<and> buddy (employee_p p) = Some BNull \<and> checkInsScheduled (employee_p p) = None"
proof -
  let ?e = "shared_employee env0 ana"
  let ?c = "copyFor ?e"
  let ?rs = "settled_results orch_nobuddy env0 ana"
  let ?err = "TypeError ''Cannot read properties of undefined (reading name)''"
  from ana_hr_run [OF orch_nobuddy_agents(1)] obtain c_hr l_hr where
    hr: "fst (run (hr_agent orch_nobuddy) ?c) = Inr (c_hr, l_hr)" "employee c_hr = hr_effect ?e"
    by blast
  from ana_it_run [OF orch_nobuddy_agents(2)] obtain c_it l_it where
    it: "fst (run (it_agent orch_nobuddy) ?c) = Inr (c_it, l_it)"
      "employee c_it = it_effect it_engineering ''ana.lopez@company.com'' ?e"
    by blast
  from ana_tr_run [OF orch_nobuddy_agents(3)] obtain c_tr l_tr where
    tr: "fst (run (training_agent orch_nobuddy) ?c) = Inr (c_tr, l_tr)"
      "employee c_tr = tr_effect tr_engineering ?e"
    by blast
  have "lower_or [] (getp (department (employee ?c))) = Inr ''engineering''"
    by (simp add: ana_lower)
  moreover have "\<not> has_buddy (employee ?c)" by (simp add: ana_flags)
  moreover have "bd_ranked [] ''engineering'' = []" by (simp add: bd_ranked_def sort_by_def)
  ultimately have bd: "fst (run (buddy_agent orch_nobuddy) ?c) = Inl ?err"
    by (rule bd_run_rejects_empty [OF orch_nobuddy_agents(4)])
  have rs: "?rs = [Inr (c_hr, l_hr), Inr (c_it, l_it), Inr (c_tr, l_tr), Inl ?err]"
    by (simp add: settled_results_list hr(1) it(1) tr(1) bd)
  have perm: "mset [3, 2, 1, 0] = mset [0, 1, 2, 3 :: nat]" by simp
  have k: "(3 :: nat) < 4" by simp
  have rej: "?rs ! 3 = Inl ?err" by (simp add: rs)
  have ful: "\<forall>j<4. j \<noteq> 3 \<longrightarrow> fulfilled (?rs ! j)"
  proof (intro allI impI)
    fix j :: nat assume "j < 4" "j \<noteq> 3"
    then have "j = 0 \<or> j = 1 \<or> j = 2" by arith
    then show "fulfilled (?rs ! j)" by (auto simp: rs fulfilled_def)
  qed
  from onboard_isolates_failure [OF perm k rej ful] obtain p orch' where
    p: "onboard orch_nobuddy env0 [3, 2, 1, 0] ana = Some (p, orch')"
    and lg: "map_of (agentLogs p) (agentNames ! 3) =
         Some [\<lparr>timestamp = None, agent_l = agentNames ! 3, action = ''error'',
                 detail = message ?err\<rparr>]"
    and t: "tasks (employee_p p) = Some (concat (map result_tasks (take 3 ?rs @ drop (Suc 3) ?rs)))"
    and emp: "employee_p p =
         (fold result_overlay (take 3 ?rs @ drop (Suc 3) ?rs) ?e)\<lparr>tasks := tasks (employee_p p)\<rparr>"
    by blast
  from t have "map id_t (or_empty (tasks (employee_p p))) =
      map id_t (hr_tasks ?e) @ map id_t (it_tasks it_engineering ''ana.lopez@company.com'' ?e)
      @ map id_t (tr_tasks tr_engineering ?e)"
    by (simp add: rs result_tasks_def hr(2) it(2) tr(2))
  then have ids: "map id_t (or_empty (tasks (employee_p p)))
         @ [''buddy-intro-meeting'', ''buddy-checkin-day7'', ''buddy-checkin-day14'',
            ''buddy-checkin-day30'', ''buddy-checkin-day60'', ''buddy-checkin-day90''] = ana_ids"
    using ana_all_ids [unfolded ana_bd_ids] by simp
  have ov: "fold result_overlay (take 3 ?rs @ drop (Suc 3) ?rs) ?e =
      Object_assign (Object_assign (Object_assign ?e (hr_effect ?e))
        (it_effect it_engineering ''ana.lopez@company.com'' ?e)) (tr_effect tr_engineering ?e)"
    by (simp add: rs result_overlay_def hr(2) it(2) tr(2))
  have "buddy (employee_p p) = buddy (fold result_overlay (take 3 ?rs @ drop (Suc 3) ?rs) ?e)"
    "checkInsScheduled (employee_p p)
       = checkInsScheduled (fold result_overlay (take 3 ?rs @ drop (Suc 3) ?rs) ?e)"
    by (subst emp, simp)+
  then have "buddy (employee_p p) = buddy ?e" "checkInsScheduled (employee_p p) = checkInsScheduled ?e"
    unfolding ov by (simp_all add: Object_assign_def overlay_def split: option.splits)
  then have fields: "buddy (employee_p p) = Some BNull" "checkInsScheduled (employee_p p) = None"
    by (simp_all add: shared_employee_def ana_def)
  from p lg ids fields show ?thesis
    by (simp add: agentNames_def)
qed

section \<open>The logs of the agents across calls\<close>

lemma append_onlyD:
  assumes "append_only ag"
  shows "perceive ag c lg = (r, lg1) \<Longrightarrow> \<exists>new. lg1 = lg @ new"
    and "decide ag c lg = (r2, lg2) \<Longrightarrow> \<exists>new. lg2 = lg @ new"
    and "act ag c acts lg = (r3, lg3) \<Longrightarrow> \<exists>new. lg3 = lg @ new"
    and "reflect ag c lg = (r4, lg4) \<Longrightarrow> \<exists>new. lg4 = lg @ new"
  using assms unfolding append_only_def by (metis snd_conv)+

text \<open>One round of the loop: it ends, or it goes on from the reflected context.\<close>

lemma run_loop_round:
  assumes "run_loop ag i c lg tr = (r, lg', tr')" and "i < MAX_ITERATIONS"
  shows "(\<exists>x lg1. perceive ag c lg = (x, lg1) \<and>
           (lg' = lg1 \<or>
            (\<exists>pc y lg2. x = Inr pc \<and> decide ag pc lg1 = (y, lg2) \<and>
               (lg' = lg2
                \<or> lg' = addLog (clock ag) (name ag) ''no-actions'' ''No further actions required'' lg2
                \<or> (\<exists>acts z lg3. y = Inr acts \<and> act ag pc acts lg2 = (z, lg3) \<and>
                     (lg' = lg3 \<or>
                      (\<exists>c1 w lg4. z = Inr c1 \<and> reflect ag c1 lg3 = (w, lg4) \<and>
                         (lg' = lg4 \<or>
                          (\<exists>c2. run_loop ag (i + 1) c2 lg4 (tr @ [Perceive, Decide, Act, Reflect])
                                  = (r, lg', tr'))))))))))"
  using assms
  by (subst (asm) run_loop.simps)
     (auto split: prod.splits sum.splits if_splits bool.splits)

lemma run_loop_appends:
  assumes "append_only ag"
  shows "run_loop ag i c lg tr = (r, lg', tr') \<Longrightarrow> \<exists>new. lg' = lg @ new"
proof (induction "MAX_ITERATIONS - i" arbitrary: i c lg tr)
  case 0
  then show ?case by (simp add: run_loop_exhausted)
next
  case (Suc n)
  then have i: "i < MAX_ITERATIONS" by simp
  from run_loop_round [OF Suc.prems i] obtain x lg1 where
    p: "perceive ag c lg = (x, lg1)" and
    rest: "lg' = lg1 \<or>
            (\<exists>pc y lg2. x = Inr pc \<and> decide ag pc lg1 = (y, lg2) \<and>
               (lg' = lg2
                \<or> lg' = addLog (clock ag) (name ag) ''no-actions'' ''No further actions required'' lg2
                \<or> (\<exists>acts z lg3. y = Inr acts \<and> act ag pc acts lg2 = (z, lg3) \<and>
                     (lg' = lg3 \<or>
                      (\<exists>c1 w lg4. z = Inr c1 \<and> reflect ag c1 lg3 = (w, lg4) \<and>
                         (lg' = lg4 \<or>
                          (\<exists>c2. run_loop ag (i + 1) c2 lg4 (tr @ [Perceive, Decide, Act, Reflect])
                                  = (r, lg', tr'))))))))"
    by blast
  from append_onlyD(1) [OF assms p] obtain n1 where n1: "lg1 = lg @ n1" ..
  from rest show ?case
  proof (elim disjE exE conjE)
    assume "lg' = lg1" with n1 show ?thesis by blast
  next
    fix pc y lg2 assume d: "decide ag pc lg1 = (y, lg2)" and "lg' = lg2"
    from append_onlyD(2) [OF assms d] n1 \<open>lg' = lg2\<close> show ?thesis by auto
  next
    fix pc y lg2 assume d: "decide ag pc lg1 = (y, lg2)"
      and "lg' = addLog (clock ag) (name ag) ''no-actions'' ''No further actions required'' lg2"
    with append_onlyD(2) [OF assms d] n1 show ?thesis by (auto simp: addLog_def)
  next
    fix pc y lg2 acts z lg3
    assume d: "decide ag pc lg1 = (y, lg2)" and a: "act ag pc acts lg2 = (z, lg3)" and "lg' = lg3"
    with append_onlyD(2) [OF assms d] append_onlyD(3) [OF assms a] n1 show ?thesis by auto
  next
    fix pc y lg2 acts z lg3 c1 w lg4
    assume d: "decide ag pc lg1 = (y, lg2)" and a: "act ag pc acts lg2 = (z, lg3)"
      and rf: "reflect ag c1 lg3 = (w, lg4)" and "lg' = lg4"
    with append_onlyD(2) [OF assms d] append_onlyD(3) [OF assms a] append_onlyD(4) [OF assms rf] n1
    show ?thesis by auto
  next
    fix pc y lg2 acts z lg3 c1 w lg4 c2
    assume d: "decide ag pc lg1 = (y, lg2)" and a: "act ag pc acts lg2 = (z, lg3)"
      and rf: "reflect ag c1 lg3 = (w, lg4)"
      and rec: "run_loop ag (i + 1) c2 lg4 (tr @ [Perceive, Decide, Act, Reflect]) = (r, lg', tr')"
    from Suc.hyps(2) have "n = MAX_ITERATIONS - (i + 1)" by simp
    from Suc.hyps(1) [OF this rec] obtain n5 where "lg' = lg4 @ n5" ..
    with append_onlyD(2) [OF assms d] append_onlyD(3) [OF assms a] append_onlyD(4) [OF assms rf] n1
    show ?thesis by auto
  qed
qed

text \<open>A run appends at least its 'start' entry and its 'complete' or 'error' entry, and a
  fulfilled run returns the log it leaves on the agent.\<close>

lemma run_appends:
  assumes "append_only ag"
  shows "\<exists>new. log_a (snd (run ag c)) = log_a ag @ new \<and> 2 \<le> length new
      \<and> (\<forall>c' lg'. fst (run ag c) = Inr (c', lg') \<longrightarrow> lg' = log_a ag @ new)"
proof -
  obtain r lg' tr' where rl: "run_loop ag 0 c (start_log ag) (calls ag) = (r, lg', tr')"
    by (metis prod_cases3)
  from run_loop_appends [OF assms rl] obtain new where new: "lg' = start_log ag @ new" ..
  show ?thesis
  proof (cases r)
    case (Inl err)
    with rl new show ?thesis
      by (simp add: run_rejected [unfolded start_log_def [symmetric]] start_log_def addLog_def)
  next
    case (Inr c')
    with rl new show ?thesis
      by (simp add: run_fulfilled [unfolded start_log_def [symmetric]] start_log_def addLog_def)
  qed
qed

lemma run_keeps_methods:
  "name (snd (run ag c)) = name ag" "clock (snd (run ag c)) = clock ag"
  "perceive (snd (run ag c)) = perceive ag" "decide (snd (run ag c)) = decide ag"
  "act (snd (run ag c)) = act ag" "reflect (snd (run ag c)) = reflect ag"
  by (simp_all add: run_def Let_def split: prod.splits sum.splits)

lemma run_keeps_class:
  "is_HRAgent ag \<Longrightarrow> is_HRAgent (snd (run ag c))"
  "is_ITSetupAgent ag \<Longrightarrow> is_ITSetupAgent (snd (run ag c))"
  "is_TrainingAgent ag \<Longrightarrow> is_TrainingAgent (snd (run ag c))"
  "is_BuddyAgent buddyPool ag \<Longrightarrow> is_BuddyAgent buddyPool (snd (run ag c))"
  by (simp_all add: is_HRAgent_def is_ITSetupAgent_def is_TrainingAgent_def is_BuddyAgent_def
      run_keeps_methods)


lemma hr_fold_appends:
  "\<exists>new. snd (fold (hr_act_step clk nm) acts (emp, lg)) = lg @ new"
proof (induction acts arbitrary: emp lg)
  case Nil
  show ?case by simp
next
  case (Cons a acts)
  obtain emp1 lg1 where s: "hr_act_step clk nm a (emp, lg) = (emp1, lg1)"
    by (cases "hr_act_step clk nm a (emp, lg)")
  then have "\<exists>n1. lg1 = lg @ n1" by (cases a) (auto simp: addLog_def)
  with Cons.IH [of emp1 lg1] s show ?case by auto
qed

lemma it_fold_appends:
  "\<exists>new. snd (fold (it_act_step clk nm) acts (emp, lg)) = lg @ new"
proof (induction acts arbitrary: emp lg)
  case Nil
  show ?case by simp
next
  case (Cons a acts)
  obtain emp1 lg1 where s: "it_act_step clk nm a (emp, lg) = (emp1, lg1)"
    by (cases "it_act_step clk nm a (emp, lg)")
  then have "\<exists>n1. lg1 = lg @ n1" by (cases a) (auto simp: addLog_def Let_def)
  with Cons.IH [of emp1 lg1] s show ?case by auto
qed

lemma tr_fold_appends:
  "\<exists>new. snd (fold (tr_act_step clk nm) acts (emp, lg)) = lg @ new"
proof (induction acts arbitrary: emp lg)
  case Nil
  show ?case by simp
next
  case (Cons a acts)
  obtain emp1 lg1 where s: "tr_act_step clk nm a (emp, lg) = (emp1, lg1)"
    by (cases "tr_act_step clk nm a (emp, lg)")
  then have "\<exists>n1. lg1 = lg @ n1" by (cases a) (auto simp: addLog_def Let_def)
  with Cons.IH [of emp1 lg1] s show ?case by auto
qed

lemma bd_step_appends:
  "bd_act_step clk nm a (emp, lg) = (r, lg1) \<Longrightarrow> \<exists>n1. lg1 = lg @ n1"
  by (cases "(clk, nm, a, (emp, lg))" rule: bd_act_step.cases) (auto simp: addLog_def)

lemma bd_loop_appends:
  "\<exists>new. snd (bd_act_loop clk nm acts (emp, lg)) = lg @ new"
proof (induction acts arbitrary: emp lg)
  case Nil
  show ?case by simp
next
  case (Cons a acts)
  obtain r lg1 where s: "bd_act_step clk nm a (emp, lg) = (r, lg1)"
    by (cases "bd_act_step clk nm a (emp, lg)")
  from bd_step_appends [OF s] obtain n1 where n1: "lg1 = lg @ n1" ..
  show ?case
  proof (cases r)
    case (Inl err)
    with s n1 show ?thesis by simp
  next
    case (Inr emp1)
    with Cons.IH [of emp1 lg1] s n1 show ?thesis by auto
  qed
qed

lemma hr_append_only: "is_HRAgent ag \<Longrightarrow> append_only ag"
  unfolding append_only_def is_HRAgent_def
proof (intro allI conjI, goal_cases)
  case (3 c lg acts)
  from hr_fold_appends [of "clock ag" "''HR Agent''" acts "init_tasks (employee c)" lg] 3
  show ?case by (auto simp: hr_act_def split: prod.splits)
qed (auto simp: hr_perceive_def hr_decide_def hr_reflect_def Let_def addLog_def split: option.splits)

lemma it_append_only: "is_ITSetupAgent ag \<Longrightarrow> append_only ag"
  unfolding append_only_def is_ITSetupAgent_def
proof (intro allI conjI, goal_cases)
  case (3 c lg acts)
  from it_fold_appends [of "clock ag" "''IT Setup Agent''" acts "init_tasks (employee c)" lg] 3
  show ?case by (auto simp: it_act_def split: prod.splits)
qed (auto simp: it_perceive_def it_decide_def it_reflect_def Let_def addLog_def
      split: option.splits sum.splits)

lemma tr_append_only: "is_TrainingAgent ag \<Longrightarrow> append_only ag"
  unfolding append_only_def is_TrainingAgent_def
proof (intro allI conjI, goal_cases)
  case (3 c lg acts)
  from tr_fold_appends [of "clock ag" "''Training Agent''" acts "init_tasks (employee c)" lg] 3
  show ?case by (auto simp: tr_act_def split: prod.splits)
qed (auto simp: tr_perceive_def tr_decide_def tr_reflect_def Let_def addLog_def
      split: option.splits sum.splits)

lemma bd_append_only: "is_BuddyAgent buddyPool ag \<Longrightarrow> append_only ag"
  unfolding append_only_def is_BuddyAgent_def
proof (intro allI conjI, goal_cases)
  case (3 c lg acts)
  from bd_loop_appends [of "clock ag" "''Buddy Agent''" acts "init_tasks (employee c)" lg] 3
  show ?case by (auto simp: bd_act_def split: prod.splits sum.splits)
qed (auto simp: bd_perceive_def bd_decide_def bd_reflect_def Let_def addLog_def
      split: option.splits sum.splits)

lemma agent_runs_map:
  "agent_runs orch emp = map (\<lambda>ag. run ag (copyFor emp)) (agents_of orch)"
  by (simp add: agent_runs_def agents_of_def)

lemma agents_of_length [simp]: "length (agents_of orch) = 4"
  by (simp add: agents_of_def)

lemma settled_results_agent:
  "k < 4 \<Longrightarrow> settled_results orch ev d ! k
     = fst (run (agents_of orch ! k) (copyFor (shared_employee ev d)))"
  by (simp add: settled_results_def agent_runs_map)

lemma is_Orchestrator_agents:
  "is_Orchestrator buddyPool orch =
     (is_HRAgent (agents_of orch ! 0) \<and> is_ITSetupAgent (agents_of orch ! 1)
      \<and> is_TrainingAgent (agents_of orch ! 2) \<and> is_BuddyAgent buddyPool (agents_of orch ! 3))"
  by (simp add: is_Orchestrator_def agents_of_def)

lemma is_Orchestrator_append_only:
  assumes "is_Orchestrator buddyPool orch" and "k < 4"
  shows "append_only (agents_of orch ! k)"
proof -
  from assms(2) have "k = 0 \<or> k = 1 \<or> k = 2 \<or> k = 3" by arith
  with assms(1) show ?thesis
    unfolding is_Orchestrator_agents
    by (auto intro: hr_append_only it_append_only tr_append_only bd_append_only)
qed

lemma agentLogs_lookup:
  assumes "k < 4"
  shows "map_of (map (\<lambda>(r, nm). (nm, result_log nm r)) (zip (settled_results orch ev d) agentNames))
           (agentNames ! k) = Some (result_log (agentNames ! k) (settled_results orch ev d ! k))"
proof -
  obtain a b c e where rs: "settled_results orch ev d = [a, b, c, e]"
    using list4 [OF settled_results_length] by blast
  from assms have "k = 0 \<or> k = 1 \<or> k = 2 \<or> k = 3" by arith
  then show ?thesis by (elim disjE) (simp_all add: rs agentNames_def)
qed

text \<open>What a call returns and leaves behind, from \<open>onboard_plan\<close>.\<close>

lemma onboard_logs:
  assumes "mset order = mset [0, 1, 2, 3 :: nat]" and "onboard orch ev order d = Some (p, orch')"
  shows "agents_of orch' = map (\<lambda>ag. snd (run ag (copyFor (shared_employee ev d)))) (agents_of orch)"
    and "k < 4 \<Longrightarrow> map_of (agentLogs p) (agentNames ! k)
           = Some (result_log (agentNames ! k) (settled_results orch ev d ! k))"
    and "agentSummaries (summary_p p) = map (\<lambda>(nm, lg). (nm, summarize_agent lg)) (agentLogs p)"
    and "map fst (agentLogs p) = agentNames"
proof -
  from onboard_plan [OF assms(1), of orch ev d] assms(2)
  have a: "agents_of orch' = map snd (agent_runs orch (shared_employee ev d))"
    and l: "agentLogs p = map (\<lambda>(r, nm). (nm, result_log nm r)) (zip (settled_results orch ev d) agentNames)"
    and s: "summary_p p = buildSummary (employee_p p) (agentLogs p) (startTime ev) (endTime ev)"
    by auto
  from a show "agents_of orch' = map (\<lambda>ag. snd (run ag (copyFor (shared_employee ev d)))) (agents_of orch)"
    by (simp add: agent_runs_map)
  show "k < 4 \<Longrightarrow> map_of (agentLogs p) (agentNames ! k)
           = Some (result_log (agentNames ! k) (settled_results orch ev d ! k))"
    unfolding l by (rule agentLogs_lookup)
  from s show "agentSummaries (summary_p p) = map (\<lambda>(nm, lg). (nm, summarize_agent lg)) (agentLogs p)"
    by (simp add: buildSummary_def Let_def)
  obtain a b c e where rs: "settled_results orch ev d = [a, b, c, e]"
    using list4 [OF settled_results_length] by blast
  show "map fst (agentLogs p) = agentNames"
    by (simp add: l rs agentNames_def)
qed

lemma onboard_keeps_class:
  assumes "mset order = mset [0, 1, 2, 3 :: nat]" and "onboard orch ev order d = Some (p, orch')"
    and "is_Orchestrator buddyPool orch"
  shows "is_Orchestrator buddyPool orch'"
  using assms(3) unfolding is_Orchestrator_agents onboard_logs(1) [OF assms(1,2)]
  by (simp add: run_keeps_class)

text \<open>The log an agent of the orchestrator returns and keeps in one call.\<close>

lemma onboard_agent_log:
  assumes "mset order = mset [0, 1, 2, 3 :: nat]" and "onboard orch ev order d = Some (p, orch')"
    and "is_Orchestrator buddyPool orch" and "k < 4"
  shows "\<exists>new. log_a (agents_of orch' ! k) = log_a (agents_of orch ! k) @ new \<and> 2 \<le> length new
     \<and> (fulfilled (settled_results orch ev d ! k) \<longrightarrow>
          map_of (agentLogs p) (agentNames ! k) = Some (log_a (agents_of orch ! k) @ new))"
proof -
  let ?c = "copyFor (shared_employee ev d)"
  let ?ag = "agents_of orch ! k"
  from is_Orchestrator_append_only [OF assms(3,4)] have ao: "append_only ?ag" .
  from run_appends [OF ao, of ?c] obtain new where
    new: "log_a (snd (run ?ag ?c)) = log_a ?ag @ new" "2 \<le> length new"
      "\<forall>c' lg'. fst (run ?ag ?c) = Inr (c', lg') \<longrightarrow> lg' = log_a ?ag @ new"
    by blast
  have 1: "agents_of orch' ! k = snd (run ?ag ?c)"
    using assms(4) by (simp add: onboard_logs(1) [OF assms(1,2)])
  have "fulfilled (settled_results orch ev d ! k) \<longrightarrow>
          map_of (agentLogs p) (agentNames ! k) = Some (log_a ?ag @ new)"
  proof
    assume "fulfilled (settled_results orch ev d ! k)"
    then obtain c' lg' where r: "settled_results orch ev d ! k = Inr (c', lg')"
      by (auto simp: fulfilled_def split: sum.splits)
    with new(3) assms(4) have "lg' = log_a ?ag @ new"
      by (simp add: settled_results_agent)
    with r onboard_logs(2) [OF assms(1,2,4)]
    show "map_of (agentLogs p) (agentNames ! k) = Some (log_a ?ag @ new)"
      by (simp add: result_log_def)
  qed
  with new(1,2) 1 show ?thesis by auto
qed

lemma hr_always_fulfils:
  assumes "is_Orchestrator buddyPool orch"
  shows "fulfilled (settled_results orch ev d ! 0)"
proof -
  from assms have "is_HRAgent (hr_agent orch)" by (simp add: is_Orchestrator_def)
  from hr_run [OF this copyFor_tasks, of "shared_employee ev d"]
  show ?thesis by (auto simp: settled_results_nth fulfilled_def)
qed

text \<open>
  Claim C10: the log of an agent is only ever appended to, and the orchestrator keeps its
  four agents from call to call. For any two successive onboard calls on the same
  orchestrator, each agent's log after the first call is its log before with the entries of
  the first call appended (at least two); the agentLogs that the second call returns for a
  fulfilled agent are that log with the entries of the second call appended (again at least
  two), and they extend what the first call returned for the agent if it fulfilled then.
  So the two calls, whatever their inputs, do not return the same agentLogs, and the
  totalActions count of the HR agent in the second summary is greater than in the first.
\<close>

theorem onboard_logs_accumulate:
  assumes "is_Orchestrator buddyPool orch"
    and "mset order1 = mset [0, 1, 2, 3 :: nat]" and "mset order2 = mset [0, 1, 2, 3 :: nat]"
    and "onboard orch ev1 order1 d1 = Some (p1, orch1)"
    and "onboard orch1 ev2 order2 d2 = Some (p2, orch2)"
  shows "is_Orchestrator buddyPool orch1
     \<and> (\<forall>k<4. \<exists>new1. log_a (agents_of orch1 ! k) = log_a (agents_of orch ! k) @ new1
            \<and> 2 \<le> length new1
            \<and> (fulfilled (settled_results orch ev1 d1 ! k) \<longrightarrow>
                 map_of (agentLogs p1) (agentNames ! k) = Some (log_a (agents_of orch ! k) @ new1))
            \<and> (fulfilled (settled_results orch1 ev2 d2 ! k) \<longrightarrow>
                 (\<exists>new2. map_of (agentLogs p2) (agentNames ! k)
                            = Some (log_a (agents_of orch ! k) @ new1 @ new2)
                         \<and> 2 \<le> length new2)))
     \<and> agentLogs p2 \<noteq> agentLogs p1
     \<and> (\<exists>s1 s2. map_of (agentSummaries (summary_p p1)) ''hr'' = Some s1
            \<and> map_of (agentSummaries (summary_p p2)) ''hr'' = Some s2
            \<and> totalActions s1 < totalActions s2)"
proof -
  have cls: "is_Orchestrator buddyPool orch1"
    by (rule onboard_keeps_class [OF assms(2,4,1)])
  have each: "\<exists>new1. log_a (agents_of orch1 ! k) = log_a (agents_of orch ! k) @ new1
            \<and> 2 \<le> length new1
            \<and> (fulfilled (settled_results orch ev1 d1 ! k) \<longrightarrow>
                 map_of (agentLogs p1) (agentNames ! k) = Some (log_a (agents_of orch ! k) @ new1))
            \<and> (fulfilled (settled_results orch1 ev2 d2 ! k) \<longrightarrow>
                 (\<exists>new2. map_of (agentLogs p2) (agentNames ! k)
                            = Some (log_a (agents_of orch ! k) @ new1 @ new2)
                         \<and> 2 \<le> length new2))" if k: "k < 4" for k
  proof -
    from onboard_agent_log [OF assms(2,4,1) k] obtain new1 where
      1: "log_a (agents_of orch1 ! k) = log_a (agents_of orch ! k) @ new1" "2 \<le> length new1"
        "fulfilled (settled_results orch ev1 d1 ! k) \<longrightarrow>
          map_of (agentLogs p1) (agentNames ! k) = Some (log_a (agents_of orch ! k) @ new1)"
      by blast
    from onboard_agent_log [OF assms(3,5) cls k] obtain new2 where
      2: "2 \<le> length new2"
        "fulfilled (settled_results orch1 ev2 d2 ! k) \<longrightarrow>
          map_of (agentLogs p2) (agentNames ! k) = Some (log_a (agents_of orch1 ! k) @ new2)"
      by blast
    from 1 2 show ?thesis by auto
  qed
  from each [of 0] hr_always_fulfils [OF assms(1)] hr_always_fulfils [OF cls]
  obtain new1 new2 where
    hr1: "map_of (agentLogs p1) ''hr'' = Some (log_a (agents_of orch ! 0) @ new1)" and
    hr2: "map_of (agentLogs p2) ''hr'' = Some (log_a (agents_of orch ! 0) @ new1 @ new2)" and
    len: "2 \<le> length new2"
    by (auto simp: agentNames_def)
  from hr1 hr2 len have neq: "agentLogs p2 \<noteq> agentLogs p1" by auto
  have sums: "map_of (agentSummaries (summary_p p1)) ''hr''
        = Some (summarize_agent (log_a (agents_of orch ! 0) @ new1))"
      "map_of (agentSummaries (summary_p p2)) ''hr''
        = Some (summarize_agent (log_a (agents_of orch ! 0) @ new1 @ new2))"
    using hr1 hr2
    by (simp_all add: onboard_logs(3) [OF assms(2,4)] onboard_logs(3) [OF assms(3,5)]
        map_of_map [of summarize_agent, unfolded split_def comp_def] split_def)
  from len have "totalActions (summarize_agent (log_a (agents_of orch ! 0) @ new1))
      < totalActions (summarize_agent (log_a (agents_of orch ! 0) @ new1 @ new2))"
    by (auto simp: summarize_agent_def)
  with sums have "\<exists>s1 s2. map_of (agentSummaries (summary_p p1)) ''hr'' = Some s1
            \<and> map_of (agentSummaries (summary_p p2)) ''hr'' = Some s2
            \<and> totalActions s1 < totalActions s2"
    by blast
  with cls each neq show ?thesis by blast
qed


theorem onboard_logs_accumulate_witness:
  "\<exists>p1 orch1 p2 orch2 new1 new2.
     onboard orch0 env0 [0, 1, 2, 3] ana = Some (p1, orch1)
     \<and> onboard orch1 env0 [0, 1, 2, 3] ana = Some (p2, orch2)
     \<and> map_of (agentLogs p1) ''hr'' = Some new1 \<and> 2 \<le> length new1
     \<and> map_of (agentLogs p2) ''hr'' = Some (new1 @ new2) \<and> 2 \<le> length new2
     \<and> agentLogs p2 \<noteq> agentLogs p1"
proof -
  have perm: "mset [0, 1, 2, 3] = mset [0, 1, 2, 3 :: nat]" by simp
  have o: "is_Orchestrator buddyPool0 orch0" by (simp add: orch0_def)
  from onboard_plan [OF perm, of orch0 env0 ana] obtain p1 orch1 where
    c1: "onboard orch0 env0 [0, 1, 2, 3] ana = Some (p1, orch1)" by blast
  from onboard_plan [OF perm, of orch1 env0 ana] obtain p2 orch2 where
    c2: "onboard orch1 env0 [0, 1, 2, 3] ana = Some (p2, orch2)" by blast
  note acc = onboard_logs_accumulate [OF o perm perm c1 c2]
  from acc have o1: "is_Orchestrator buddyPool0 orch1" by blast
  from acc have neq: "agentLogs p2 \<noteq> agentLogs p1" by blast
  have k: "(0 :: nat) < 4" by simp
  from acc k obtain new1 where
    n1: "log_a (agents_of orch1 ! 0) = log_a (agents_of orch0 ! 0) @ new1" "2 \<le> length new1"
    and f1: "fulfilled (settled_results orch0 env0 ana ! 0) \<longrightarrow>
               map_of (agentLogs p1) (agentNames ! 0) = Some (log_a (agents_of orch0 ! 0) @ new1)"
    and f2: "fulfilled (settled_results orch1 env0 ana ! 0) \<longrightarrow>
               (\<exists>new2. map_of (agentLogs p2) (agentNames ! 0)
                          = Some (log_a (agents_of orch0 ! 0) @ new1 @ new2)
                       \<and> 2 \<le> length new2)"
    by blast
  have empty: "log_a (agents_of orch0 ! 0) = []"
    by (simp add: agents_of_def orch0_def new_Orchestrator_def HRAgent_def)
  from f1 hr_always_fulfils [OF o] empty
  have l1: "map_of (agentLogs p1) ''hr'' = Some new1" by (simp add: agentNames_def)
  from f2 hr_always_fulfils [OF o1] empty obtain new2 where
    l2: "map_of (agentLogs p2) ''hr'' = Some (new1 @ new2)" "2 \<le> length new2"
    by (auto simp: agentNames_def)
  from c1 c2 l1 n1(2) l2 neq show ?thesis by blast
qed

section \<open>Buddy matching\<close>

lemma set_insert_by [simp]: "set (insert_by cmp x ys) = insert x (set ys)"
  by (induction ys) auto

lemma set_sort_by [simp]: "set (sort_by cmp xs) = set xs"
proof -
  have "set (foldl (\<lambda>acc x. insert_by cmp x acc) acc xs) = set acc \<union> set xs" for acc
    by (induction xs arbitrary: acc) auto
  then show ?thesis by (simp add: sort_by_def)
qed

lemma sort_by_snoc: "sort_by cmp (xs @ [x]) = insert_by cmp x (sort_by cmp xs)"
  by (simp add: sort_by_def)

lemma sort_by_Nil_iff [simp]: "(sort_by cmp xs = []) = (xs = [])"
  using set_sort_by [of cmp xs] by (metis set_empty)

lemma hd_insert_by:
  "hd (insert_by cmp x ys) = (if ys = [] \<or> cmp (hd ys) x > 0 then x else hd ys)"
  by (cases ys) simp_all

text \<open>The head of the sorted list is the first element of greatest key.\<close>

lemma hd_sort_by:
  fixes k :: "'a \<Rightarrow> rat"
  assumes "\<And>a b. a \<in> set xs \<Longrightarrow> b \<in> set xs \<Longrightarrow> (cmp a b > 0) = (k a < k b)"
    and "xs \<noteq> []"
  shows "\<exists>i<length xs. hd (sort_by cmp xs) = xs ! i
           \<and> (\<forall>j<length xs. k (xs ! j) \<le> k (xs ! i)) \<and> (\<forall>j<i. k (xs ! j) < k (xs ! i))"
  using assms
proof (induction xs rule: rev_induct)
  case Nil
  then show ?case by simp
next
  case (snoc x xs)
  show ?case
  proof (cases "xs = []")
    case True
    then show ?thesis by (simp add: sort_by_def)
  next
    case False
    from snoc.prems(1) have "\<And>a b. a \<in> set xs \<Longrightarrow> b \<in> set xs \<Longrightarrow> (cmp a b > 0) = (k a < k b)"
      by simp
    from snoc.IH [OF this False] obtain i where i: "i < length xs"
      "hd (sort_by cmp xs) = xs ! i" "\<forall>j<length xs. k (xs ! j) \<le> k (xs ! i)"
      "\<forall>j<i. k (xs ! j) < k (xs ! i)"
      by blast
    have c: "(cmp (xs ! i) x > 0) = (k (xs ! i) < k x)"
      using i(1) by (intro snoc.prems(1)) simp_all
    have h: "hd (sort_by cmp (xs @ [x])) = (if k (xs ! i) < k x then x else xs ! i)"
      using False by (simp add: sort_by_snoc hd_insert_by i(2) c)
    show ?thesis
    proof (cases "k (xs ! i) < k x")
      case True
      have "\<forall>j<length (xs @ [x]). k ((xs @ [x]) ! j) \<le> k x"
      proof (intro allI impI)
        fix j assume "j < length (xs @ [x])"
        then consider "j < length xs" | "j = length xs" by fastforce
        then show "k ((xs @ [x]) ! j) \<le> k x"
        proof cases
          case 1
          with i(3) True show ?thesis by (simp add: nth_append) (meson less_le_trans less_imp_le order_trans)
        next
          case 2
          then show ?thesis by simp
        qed
      qed
      moreover have "\<forall>j<length xs. k ((xs @ [x]) ! j) < k x"
        using i(3) True by (auto simp: nth_append intro: le_less_trans)
      ultimately show ?thesis
        using h True by (intro exI [of _ "length xs"]) simp
    next
      case False
      have "\<forall>j<length (xs @ [x]). k ((xs @ [x]) ! j) \<le> k (xs ! i)"
      proof (intro allI impI)
        fix j assume "j < length (xs @ [x])"
        then consider "j < length xs" | "j = length xs" by fastforce
        then show "k ((xs @ [x]) ! j) \<le> k (xs ! i)"
        proof cases
          case 1
          with i(3) show ?thesis by (simp add: nth_append)
        next
          case 2
          with False show ?thesis by simp
        qed
      qed
      moreover have "\<forall>j<i. k ((xs @ [x]) ! j) < k (xs ! i)"
        using i(1,4) by (auto simp: nth_append)
      ultimately show ?thesis
        using h False i(1) by (intro exI [of _ i]) (simp add: nth_append)
    qed
  qed
qed

lemma score_buddy_eq: "score_buddy dept b = b\<lparr>score := Some (scored dept b)\<rparr>"
  by (simp add: score_buddy_def scored_def Let_def)

lemma scored_grid:
  assumes "is_double (rating b)"
  shows "\<exists>k :: int. scored dept b = of_int k / 2 ^ 1074"
  using round_double_grid [of "rating b + 3"] is_double_grid [OF assms]
  by (simp add: scored_def js_add_def)

lemma by_score_scored:
  assumes "is_double (rating a)" and "is_double (rating b)"
  shows "(by_score (score_buddy dept a) (score_buddy dept b) > 0)
           = (scored dept a < scored dept b)"
proof -
  from scored_grid [OF assms(1)] obtain k :: int where k: "scored dept a = of_int k / 2 ^ 1074" ..
  from scored_grid [OF assms(2)] obtain l :: int where l: "scored dept b = of_int l / 2 ^ 1074" ..
  from js_sub_pos_iff [OF l k] show ?thesis
    by (simp add: score_buddy_eq by_score_def)
qed

text \<open>The first candidate is the first pool member of greatest score.\<close>

lemma bd_ranked_best:
  assumes "buddyPool \<noteq> []" and "\<forall>b\<in>set buddyPool. is_double (rating b)"
  shows "\<exists>i<length buddyPool. \<exists>rest.
           bd_ranked buddyPool dept = score_buddy dept (buddyPool ! i) # rest
           \<and> (\<forall>j<length buddyPool. scored dept (buddyPool ! j) \<le> scored dept (buddyPool ! i))
           \<and> (\<forall>j<i. scored dept (buddyPool ! j) < scored dept (buddyPool ! i))"
proof -
  let ?xs = "map (score_buddy dept) buddyPool"
  let ?k = "\<lambda>b. case score b of Some s \<Rightarrow> s | None \<Rightarrow> 0"
  have k: "?k (score_buddy dept b) = scored dept b" for b
    by (simp add: score_buddy_eq)
  have "(by_score a b > 0) = (?k a < ?k b)" if "a \<in> set ?xs" "b \<in> set ?xs" for a b
  proof -
    from that obtain a0 b0 where "a0 \<in> set buddyPool" "a = score_buddy dept a0"
      "b0 \<in> set buddyPool" "b = score_buddy dept b0"
      by auto
    with assms(2) by_score_scored [of a0 b0 dept] show ?thesis
      by (simp only: k)
  qed
  moreover from assms(1) have "?xs \<noteq> []" by simp
  ultimately obtain i where i: "i < length ?xs" "hd (sort_by by_score ?xs) = ?xs ! i"
    "\<forall>j<length ?xs. ?k (?xs ! j) \<le> ?k (?xs ! i)" "\<forall>j<i. ?k (?xs ! j) < ?k (?xs ! i)"
    using hd_sort_by [of ?xs by_score ?k] by blast
  from assms(1) have "bd_ranked buddyPool dept \<noteq> []" by (simp add: bd_ranked_def)
  then obtain rest where "bd_ranked buddyPool dept = hd (sort_by by_score ?xs) # rest"
    by (cases "bd_ranked buddyPool dept") (auto simp: bd_ranked_def)
  with i show ?thesis
    by (intro exI [of _ i]) (auto simp: k)
qed

lemma bd_effect_buddy:
  "\<not> has_buddy emp \<Longrightarrow> buddy (bd_effect best emp) = Some (BRec best)"
  by (simp add: bd_effect_def)

text \<open>
  Claim C6, as stated, at a pool whose engineering member has the department in title case:
  the department equals the employee's department case-insensitively, so the stated rule
  scores the member 7.9; the code compares the stored string with the lowercased employee
  department, gives no bonus, and selects the design member rated 5.0.
\<close>

theorem buddy_case_counterexample:
  "rating eve = round_double (49 / 10) \<and> rating dan = 5
   \<and> getp (department ana) = JStr ''engineering''
   \<and> spec_scored ''engineering'' eve = round_double (79 / 10)
   \<and> score (score_buddy ''engineering'' eve) = Some (round_double (49 / 10))
   \<and> (\<exists>c' lg'. fst (run (BuddyAgent [eve, dan] clock0) (copyFor (shared_employee env0 ana)))
                  = Inr (c', lg')
          \<and> buddy (employee c') = Some (BRec (dan\<lparr>score := Some 5\<rparr>)))"
proof -
  let ?c = "copyFor (shared_employee env0 ana)"
  have 1: "lower_or [] (getp (department (employee ?c))) = Inr ''engineering''"
    by (simp add: ana_lower)
  have 2: "bd_ranked [eve, dan] ''engineering''
      = score_buddy ''engineering'' dan # [score_buddy ''engineering'' eve]"
    unfolding bd_ranked_def eve_def dan_def double_literals
    by (simp add: sort_by_def score_buddy_def by_score_def eval_double)
  have 3: "is_BuddyAgent [eve, dan] (BuddyAgent [eve, dan] clock0)" by simp
  from bd_run [OF 3 copyFor_tasks 1 2] obtain c' lg' where
    r: "fst (run (BuddyAgent [eve, dan] clock0) ?c) = Inr (c', lg')"
    "employee c' = bd_effect (score_buddy ''engineering'' dan) (employee ?c)"
    by blast
  have "buddy (employee c') = Some (BRec (score_buddy ''engineering'' dan))"
    unfolding r(2) by (rule bd_effect_buddy) (simp add: ana_flags)
  then have b: "buddy (employee c') = Some (BRec (dan\<lparr>score := Some 5\<rparr>))"
    by (simp add: score_buddy_def dan_def)
  have s: "spec_scored ''engineering'' eve = round_double (79 / 10)"
    by (simp add: spec_scored_def eve_def eval_char double_sums)
  have e: "rating eve = round_double (49 / 10)" "rating dan = 5"
    "getp (department ana) = JStr ''engineering''"
    "score (score_buddy ''engineering'' eve) = Some (round_double (49 / 10))"
    by (simp_all add: eve_def dan_def ana_def score_buddy_def)
  from r(1) b show ?thesis
    by (intro conjI e s exI [of _ c'] exI [of _ lg'])
qed

text \<open>
  Claim C6, amended: for every buddy pool whose ratings are finite numbers and every employee
  whose department is a string or falsy, the Buddy agent scores each candidate as its base
  rating plus 3, the sum a number of the language (the exact sum rounded to the nearest
  double), exactly when the candidate's department string is identical to the employee's
  department in lower case; there is no other bonus, and the candidate's own string is not
  lowercased. For a nonempty pool and an employee without a buddy, the run assigns the
  candidate of greatest score, the earliest in the pool among equals. In particular, for a
  pool of a member of the employee's (lowercased) department rated 4.9 and a member of
  another department rated 5.0, in either order, the assigned buddy is the 4.9-rated member,
  with score 7.9.
\<close>

theorem buddy_selection:
  assumes "is_BuddyAgent buddyPool ag"
    and "lower_or [] (getp (department (employee c))) = Inr dept"
    and "\<not> has_buddy (employee c)" and "buddyPool \<noteq> []"
    and "\<forall>b\<in>set buddyPool. is_double (rating b)"
  shows "(\<forall>b. score_buddy dept b
              = b\<lparr>score := Some (if department_b b = dept then js_add (rating b) 3
                                  else rating b)\<rparr>
            \<and> scored dept b = (if department_b b = dept then js_add (rating b) 3 else rating b)
            \<and> js_add (rating b) 3 = round_double (rating b + 3))
     \<and> (\<exists>i<length buddyPool. \<exists>c' lg'. fst (run ag c) = Inr (c', lg')
           \<and> buddy (employee c') = Some (BRec (score_buddy dept (buddyPool ! i)))
           \<and> (\<forall>j<length buddyPool. scored dept (buddyPool ! j) \<le> scored dept (buddyPool ! i))
           \<and> (\<forall>j<i. scored dept (buddyPool ! j) < scored dept (buddyPool ! i)))
     \<and> (\<forall>e n. (buddyPool = [e, n] \<or> buddyPool = [n, e]) \<and> department_b e = dept
            \<and> rating e = round_double (49 / 10) \<and> department_b n \<noteq> dept \<and> rating n = 5
          \<longrightarrow> (\<exists>c' lg'. fst (run ag c) = Inr (c', lg')
                 \<and> buddy (employee c')
                     = Some (BRec (e\<lparr>score := Some (round_double (79 / 10))\<rparr>))))"
proof -
  from bd_ranked_best [OF assms(4,5), of dept] obtain i rest where
    i: "i < length buddyPool" "bd_ranked buddyPool dept = score_buddy dept (buddyPool ! i) # rest"
    "\<forall>j<length buddyPool. scored dept (buddyPool ! j) \<le> scored dept (buddyPool ! i)"
    "\<forall>j<i. scored dept (buddyPool ! j) < scored dept (buddyPool ! i)"
    by blast
  from bd_run_assigns [OF assms(1,2,3) i(2)] obtain c' lg' where
    r: "fst (run ag c) = Inr (c', lg')"
    "employee c' = bd_effect (score_buddy dept (buddyPool ! i)) (employee c)"
    by blast
  have b: "buddy (employee c') = Some (BRec (score_buddy dept (buddyPool ! i)))"
    unfolding r(2) by (rule bd_effect_buddy [OF assms(3)])
  have scenario: "buddy (employee c') = Some (BRec (e\<lparr>score := Some (round_double (79 / 10))\<rparr>))"
    if h: "(buddyPool = [e, n] \<or> buddyPool = [n, e]) \<and> department_b e = dept
            \<and> rating e = round_double (49 / 10) \<and> department_b n \<noteq> dept \<and> rating n = 5" for e n
  proof -
    from h have se: "scored dept e = round_double (79 / 10)" and sn: "scored dept n = 5"
      by (simp_all add: scored_def double_sums)
    have gt: "(5 :: rat) < round_double (79 / 10)"
      unfolding double_literals by simp
    from h have "buddyPool ! i = e"
    proof (elim conjE disjE)
      assume p: "buddyPool = [e, n]"
      with i(1) have "i = 0 \<or> i = 1" by auto
      then show ?thesis
      proof
        assume "i = 0" with p show ?thesis by simp
      next
        assume "i = 1"
        with i(4) p have "scored dept e < scored dept n" by simp
        with se sn gt show ?thesis by simp
      qed
    next
      assume p: "buddyPool = [n, e]"
      with i(1) have "i = 0 \<or> i = 1" by auto
      then show ?thesis
      proof
        assume "i = 0"
        with i(3) p have "scored dept e \<le> scored dept n" by auto
        with se sn gt show ?thesis by simp
      next
        assume "i = 1" with p show ?thesis by simp
      qed
    qed
    with b se show ?thesis by (simp add: score_buddy_eq)
  qed
  have rule: "\<forall>b. score_buddy dept b
              = b\<lparr>score := Some (if department_b b = dept then js_add (rating b) 3
                                  else rating b)\<rparr>
            \<and> scored dept b = (if department_b b = dept then js_add (rating b) 3 else rating b)
            \<and> js_add (rating b) 3 = round_double (rating b + 3)"
    by (simp add: score_buddy_def scored_def Let_def js_add_def)
  from i(1,3,4) r(1) b have sel: "\<exists>i<length buddyPool. \<exists>c' lg'. fst (run ag c) = Inr (c', lg')
           \<and> buddy (employee c') = Some (BRec (score_buddy dept (buddyPool ! i)))
           \<and> (\<forall>j<length buddyPool. scored dept (buddyPool ! j) \<le> scored dept (buddyPool ! i))
           \<and> (\<forall>j<i. scored dept (buddyPool ! j) < scored dept (buddyPool ! i))"
    by blast
  from rule sel scenario r(1) show ?thesis by blast
qed

theorem buddy_selection_witness:
  "(\<exists>c' lg'. fst (run (BuddyAgent [dan, sarah] clock0) (copyFor (shared_employee env0 ana)))
               = Inr (c', lg')
      \<and> buddy (employee c') = Some (BRec (sarah\<lparr>score := Some (round_double (79 / 10))\<rparr>)))
   \<and> js_add (rating lee) 3 < rating kim
   \<and> (\<exists>c' lg'. fst (run (BuddyAgent [lee, kim] clock0) (copyFor (shared_employee env0 ana)))
               = Inr (c', lg')
      \<and> buddy (employee c') = Some (BRec (kim\<lparr>score := Some (round_double (347 / 100))\<rparr>)))"
proof -
  let ?c = "copyFor (shared_employee env0 ana)"
  have 1: "is_BuddyAgent [dan, sarah] (BuddyAgent [dan, sarah] clock0)" by simp
  have 2: "lower_or [] (getp (department (employee ?c))) = Inr ''engineering''"
    by (simp add: ana_lower)
  have 3: "\<not> has_buddy (employee ?c)" by (simp add: ana_flags)
  have 4: "[dan, sarah] \<noteq> []" by simp
  have 5: "\<forall>b\<in>set [dan, sarah]. is_double (rating b)"
    by (simp add: dan_def sarah_def double_ratings)
  have 6: "([dan, sarah] = [sarah, dan] \<or> [dan, sarah] = [dan, sarah])
      \<and> department_b sarah = ''engineering'' \<and> rating sarah = round_double (49 / 10)
      \<and> department_b dan \<noteq> ''engineering'' \<and> rating dan = 5"
    by (simp add: sarah_def dan_def)
  from buddy_selection [OF 1 2 3 4 5] 6
  have first: "\<exists>c' lg'. fst (run (BuddyAgent [dan, sarah] clock0) ?c) = Inr (c', lg')
      \<and> buddy (employee c') = Some (BRec (sarah\<lparr>score := Some (round_double (79 / 10))\<rparr>))"
    by blast
  have 7: "is_BuddyAgent [lee, kim] (BuddyAgent [lee, kim] clock0)" by simp
  have 8: "[lee, kim] \<noteq> []" by simp
  have 9: "\<forall>b\<in>set [lee, kim]. is_double (rating b)"
    unfolding lee_def kim_def by (simp add: double_hundredths) (simp add: eval_double)
  have sl: "scored ''engineering'' lee = 3906872676743905 / 1125899906842624"
    by (simp add: scored_def lee_def double_sum_hundredths)
  have sk: "scored ''engineering'' kim = 7813745353487811 / 2251799813685248"
    by (simp add: scored_def kim_def double_hundredths)
  have lt: "js_add (rating lee) 3 < rating kim"
    by (simp add: lee_def kim_def double_sum_hundredths double_hundredths(2))
  from buddy_selection [OF 7 2 3 8 9] obtain i c' lg' where
    s: "i < length [lee, kim]"
      "fst (run (BuddyAgent [lee, kim] clock0) ?c) = Inr (c', lg')"
      "buddy (employee c') = Some (BRec (score_buddy ''engineering'' ([lee, kim] ! i)))"
      "\<forall>j<length [lee, kim]. scored ''engineering'' ([lee, kim] ! j)
          \<le> scored ''engineering'' ([lee, kim] ! i)"
    by blast
  from s(1) have "i = 0 \<or> i = 1" by auto
  then have "i = 1"
  proof
    assume "i = 0"
    with s(4) have "scored ''engineering'' kim \<le> scored ''engineering'' lee" by auto
    then show ?thesis unfolding sl sk by simp
  qed
  with s(3) have "buddy (employee c') = Some (BRec (kim\<lparr>score := Some (round_double (347 / 100))\<rparr>))"
    by (simp add: score_buddy_eq sk double_hundredths)
  with s(2) have second: "\<exists>c' lg'. fst (run (BuddyAgent [lee, kim] clock0) ?c) = Inr (c', lg')
      \<and> buddy (employee c') = Some (BRec (kim\<lparr>score := Some (round_double (347 / 100))\<rparr>))"
    by blast
  from first lt second show ?thesis by (intro conjI)
qed
section \<open>The merged employee fields\<close>

lemma ana_settled:
  "\<exists>c_hr l_hr c_it l_it c_tr l_tr c_bd l_bd.
     settled_results orch0 env0 ana = [Inr (c_hr, l_hr), Inr (c_it, l_it), Inr (c_tr, l_tr), Inr (c_bd, l_bd)]
     \<and> employee c_hr = hr_effect (shared_employee env0 ana)
     \<and> employee c_it = it_effect it_engineering ''ana.lopez@company.com'' (shared_employee env0 ana)
     \<and> employee c_tr = tr_effect tr_engineering (shared_employee env0 ana)
     \<and> employee c_bd = bd_effect (score_buddy ''engineering'' (buddyPool0 ! 5)) (shared_employee env0 ana)"
  using ana_hr_run [OF orch0_agents(1)] ana_it_run [OF orch0_agents(2)]
    ana_tr_run [OF orch0_agents(3)] ana_bd_run [OF orch0_agents(4)]
  unfolding settled_results_list by blast

text \<open>
  Claim C7 at the employee object the route passes in, which has the own property
  \<^verbatim>\<open>email: null\<close>: the IT agent sets \<^verbatim>\<open>email\<close> to the provisioned address and
  \<^verbatim>\<open>accounts\<close> to the assigned licenses on its copy, the overlays of the Training and the
  Buddy copy write the input's \<^verbatim>\<open>null\<close> and \<^verbatim>\<open>[]\<close> back, and the merged employee
  has \<^verbatim>\<open>emailProvisioned: true\<close> with \<^verbatim>\<open>email: null\<close>.
\<close>

theorem onboard_loses_email:
  "\<exists>p orch' c_it l_it.
     onboard orch0 env0 [0, 1, 2, 3] ana = Some (p, orch')
     \<and> settled_results orch0 env0 ana ! 1 = Inr (c_it, l_it)
     \<and> email (employee c_it) = Some (JStr ''ana.lopez@company.com'')
     \<and> emailProvisioned (employee c_it) = Some True
     \<and> accounts (employee c_it)
         = Some [''IDE License'', ''GitHub Enterprise'', ''Jira'', ''Slack'', ''AWS Console'']
     \<and> emailProvisioned (employee_p p) = Some True
     \<and> email (employee_p p) = Some JNull
     \<and> accounts (employee_p p) = Some []"
proof -
  let ?e = "shared_employee env0 ana"
  from ana_settled obtain c_hr l_hr c_it l_it c_tr l_tr c_bd l_bd where
    rs: "settled_results orch0 env0 ana = [Inr (c_hr, l_hr), Inr (c_it, l_it), Inr (c_tr, l_tr), Inr (c_bd, l_bd)]"
    and e: "employee c_hr = hr_effect ?e"
      "employee c_it = it_effect it_engineering ''ana.lopez@company.com'' ?e"
      "employee c_tr = tr_effect tr_engineering ?e"
      "employee c_bd = bd_effect (score_buddy ''engineering'' (buddyPool0 ! 5)) ?e"
    by blast
  have perm: "mset [0, 1, 2, 3] = mset [0, 1, 2, 3 :: nat]" by simp
  from onboard_plan [OF perm, of orch0 env0 ana] obtain p orch' where
    p: "onboard orch0 env0 [0, 1, 2, 3] ana = Some (p, orch')"
    and emp: "employee_p p = (fold result_overlay (settled_results orch0 env0 ana) ?e)
           \<lparr>tasks := Some (concat (map result_tasks (settled_results orch0 env0 ana)))\<rparr>"
    by blast
  have it: "email (employee c_it) = Some (JStr ''ana.lopez@company.com'')"
    "emailProvisioned (employee c_it) = Some True"
    "accounts (employee c_it)
         = Some [''IDE License'', ''GitHub Enterprise'', ''Jira'', ''Slack'', ''AWS Console'']"
    by (simp_all add: e(2) it_effect_def it_neededSoftware_def it_engineering_def
        shared_employee_def ana_def)
  have fields: "email (hr_effect ?e) = Some JNull" "email (tr_effect tr_engineering ?e) = Some JNull"
    "email (bd_effect b ?e) = Some JNull"
    "accounts (hr_effect ?e) = Some []" "accounts (tr_effect tr_engineering ?e) = Some []"
    "accounts (bd_effect b ?e) = Some []"
    "emailProvisioned (hr_effect ?e) = None" "emailProvisioned (tr_effect tr_engineering ?e) = None"
    "emailProvisioned (bd_effect b ?e) = None" for b
    by (simp_all add: hr_effect_def tr_effect_def bd_effect_def shared_employee_def ana_def)
  have merged: "email (employee_p p) = Some JNull" "accounts (employee_p p) = Some []"
    "emailProvisioned (employee_p p) = Some True"
    unfolding emp rs
    by (simp_all add: result_overlay_def Object_assign_def overlay_def e fields it [unfolded e(2)])
  from p rs it merged show ?thesis by simp
qed



section \<open>Repeated runs\<close>

lemma same_methodsD:
  assumes "same_methods ag ag'"
  shows "fst (perceive ag c lg) = fst (perceive ag' c lg')"
    and "fst (decide ag c lg) = fst (decide ag' c lg')"
    and "fst (act ag c acts lg) = fst (act ag' c acts lg')"
    and "fst (reflect ag c lg) = fst (reflect ag' c lg')"
  using assms unfolding same_methods_def by blast+

lemma run_loop_same:
  assumes "same_methods ag ag'"
  shows "fst (run_loop ag i c lg tr) = fst (run_loop ag' i c lg' tr')"
proof (induction "MAX_ITERATIONS - i" arbitrary: i c lg lg' tr tr')
  case 0
  then show ?case by (simp add: run_loop_exhausted)
next
  case (Suc n)
  then have i: "i < MAX_ITERATIONS" by simp
  obtain x lg1 where p: "perceive ag c lg = (x, lg1)" by (cases "perceive ag c lg")
  obtain x' lg1' where p': "perceive ag' c lg' = (x', lg1')" by (cases "perceive ag' c lg'")
  from same_methodsD(1) [OF assms, of c lg lg'] p p' have x: "x' = x" by simp
  show ?case
  proof (cases x)
    case (Inl err)
    with i p p' x show ?thesis by (simp add: run_loop_perceive_throws)
  next
    case (Inr pc)
    obtain y lg2 where d: "decide ag pc lg1 = (y, lg2)" by (cases "decide ag pc lg1")
    obtain y' lg2' where d': "decide ag' pc lg1' = (y', lg2')" by (cases "decide ag' pc lg1'")
    from same_methodsD(2) [OF assms, of pc lg1 lg1'] d d' have y: "y' = y" by simp
    show ?thesis
    proof (cases y)
      case (Inl err)
      with i p p' x Inr d d' y show ?thesis by (simp add: run_loop_decide_throws)
    next
      case acts: (Inr acts)
      show ?thesis
      proof (cases "acts = []")
        case True
        with i p p' x Inr d d' y acts show ?thesis by (simp add: run_loop_no_actions)
      next
        case False
        obtain z lg3 where a: "act ag pc acts lg2 = (z, lg3)" by (cases "act ag pc acts lg2")
        obtain z' lg3' where a': "act ag' pc acts lg2' = (z', lg3')"
          by (cases "act ag' pc acts lg2'")
        from same_methodsD(3) [OF assms, of pc acts lg2 lg2'] a a' have z: "z' = z" by simp
        show ?thesis
        proof (cases z)
          case (Inl err)
          from run_loop_act_throws [OF i p [unfolded Inr] d [unfolded acts] False a [unfolded Inl]]
            run_loop_act_throws [OF i p' [unfolded x Inr] d' [unfolded y acts] False a' [unfolded z Inl]]
          show ?thesis by simp
        next
          case c1: (Inr c1)
          obtain w lg4 where r: "reflect ag c1 lg3 = (w, lg4)" by (cases "reflect ag c1 lg3")
          obtain w' lg4' where r': "reflect ag' c1 lg3' = (w', lg4')"
            by (cases "reflect ag' c1 lg3'")
          from same_methodsD(4) [OF assms, of c1 lg3 lg3'] r r' have w: "w' = w" by simp
          show ?thesis
          proof (cases w)
            case (Inl err)
            from run_loop_reflect_throws [OF i p [unfolded Inr] d [unfolded acts] False
                a [unfolded c1] r [unfolded Inl]]
              run_loop_reflect_throws [OF i p' [unfolded x Inr] d' [unfolded y acts] False
                a' [unfolded z c1] r' [unfolded w Inl]]
            show ?thesis by simp
          next
            case res: (Inr res)
            obtain fin c2 where fc: "res = (fin, c2)" by (cases res)
            show ?thesis
            proof (cases fin)
              case True
              then have ft: "fin = True" by simp
              from run_loop_complete [OF i p [unfolded Inr] d [unfolded acts] False
                  a [unfolded c1] r [unfolded res fc ft]]
                run_loop_complete [OF i p' [unfolded x Inr] d' [unfolded y acts] False
                  a' [unfolded z c1] r' [unfolded w res fc ft]]
              show ?thesis by simp
            next
              case nf: False
              then have ff: "fin = False" by simp
              from Suc.hyps(2) have n: "n = MAX_ITERATIONS - (i + 1)" by simp
              from run_loop_continue [OF i p [unfolded Inr] d [unfolded acts] False
                  a [unfolded c1] r [unfolded res fc ff]]
                run_loop_continue [OF i p' [unfolded x Inr] d' [unfolded y acts] False
                  a' [unfolded z c1] r' [unfolded w res fc ff]]
                Suc.hyps(1) [OF n]
              show ?thesis by simp
            qed
          qed
        qed
      qed
    qed
  qed
qed

lemma run_same:
  assumes "same_methods ag ag'"
  shows "outcome (fst (run ag c)) = outcome (fst (run ag' c))"
proof -
  obtain r lg tr where 1: "run_loop ag 0 c (start_log ag) (calls ag) = (r, lg, tr)"
    by (metis prod_cases3)
  obtain r' lg' tr' where 2: "run_loop ag' 0 c (start_log ag') (calls ag') = (r', lg', tr')"
    by (metis prod_cases3)
  from run_loop_same [OF assms, of 0 c "start_log ag" "calls ag" "start_log ag'" "calls ag'"] 1 2
  have "r' = r" by simp
  with 1 2 show ?thesis
    by (cases r) (simp_all add: outcome_def run_def Let_def start_log_def)
qed

lemma hr_fold_same:
  "fst (fold (hr_act_step clk nm) acts (emp, lg)) = fst (fold (hr_act_step clk' nm) acts (emp, lg'))"
proof (induction acts arbitrary: emp lg lg')
  case Nil
  show ?case by simp
next
  case (Cons a acts)
  show ?case by (cases a) (simp_all add: Cons.IH)
qed

lemma it_fold_same:
  "fst (fold (it_act_step clk nm) acts (emp, lg)) = fst (fold (it_act_step clk' nm) acts (emp, lg'))"
proof (induction acts arbitrary: emp lg lg')
  case Nil
  show ?case by simp
next
  case (Cons a acts)
  show ?case by (cases a) (simp_all add: Cons.IH Let_def)
qed

lemma tr_fold_same:
  "fst (fold (tr_act_step clk nm) acts (emp, lg)) = fst (fold (tr_act_step clk' nm) acts (emp, lg'))"
proof (induction acts arbitrary: emp lg lg')
  case Nil
  show ?case by simp
next
  case (Cons a acts)
  show ?case by (cases a) (simp_all add: Cons.IH Let_def)
qed

lemma bd_loop_same:
  "fst (bd_act_loop clk nm acts (emp, lg)) = fst (bd_act_loop clk' nm acts (emp, lg'))"
proof (induction acts arbitrary: emp lg lg')
  case Nil
  show ?case by simp
next
  case (Cons a acts)
  show ?case
  proof (cases a)
    case (Assign_buddy b)
    then show ?thesis by (cases b) (simp_all add: Cons.IH)
  qed (simp_all add: Cons.IH)
qed

lemma hr_same_methods:
  assumes "is_HRAgent ag" and "is_HRAgent ag'"
  shows "same_methods ag ag'"
  unfolding same_methods_def
proof (intro allI conjI)
  fix c :: ctx and lg lg' :: "log_entry list" and acts :: "intent list"
  from assms have m: "perceive ag = hr_perceive" "perceive ag' = hr_perceive"
    "decide ag = hr_decide" "decide ag' = hr_decide"
    "act ag = hr_act (clock ag) ''HR Agent''" "act ag' = hr_act (clock ag') ''HR Agent''"
    "reflect ag = hr_reflect (clock ag) ''HR Agent''"
    "reflect ag' = hr_reflect (clock ag') ''HR Agent''"
    by (simp_all add: is_HRAgent_def)
  show "fst (perceive ag c lg) = fst (perceive ag' c lg')"
    by (simp add: m hr_perceive_def Let_def)
  show "fst (decide ag c lg) = fst (decide ag' c lg')"
    by (simp add: m hr_decide_def Let_def split: option.splits)
  show "fst (act ag c acts lg) = fst (act ag' c acts lg')"
    using hr_fold_same [of "clock ag" "''HR Agent''" acts "init_tasks (employee c)" lg
        "clock ag'" lg']
    by (auto simp: m hr_act_def split: prod.splits)
  show "fst (reflect ag c lg) = fst (reflect ag' c lg')"
    by (simp add: m hr_reflect_def Let_def)
qed

lemma it_same_methods:
  assumes "is_ITSetupAgent ag" and "is_ITSetupAgent ag'"
  shows "same_methods ag ag'"
  unfolding same_methods_def
proof (intro allI conjI)
  fix c :: ctx and lg lg' :: "log_entry list" and acts :: "intent list"
  from assms have m: "perceive ag = it_perceive" "perceive ag' = it_perceive"
    "decide ag = it_decide" "decide ag' = it_decide"
    "act ag = it_act (clock ag) ''IT Setup Agent''" "act ag' = it_act (clock ag') ''IT Setup Agent''"
    "reflect ag = it_reflect (clock ag) ''IT Setup Agent''"
    "reflect ag' = it_reflect (clock ag') ''IT Setup Agent''"
    by (simp_all add: is_ITSetupAgent_def)
  show "fst (perceive ag c lg) = fst (perceive ag' c lg')"
    by (simp add: m it_perceive_def Let_def split: sum.splits)
  show "fst (decide ag c lg) = fst (decide ag' c lg')"
    by (simp add: m it_decide_def Let_def split: option.splits sum.splits)
  show "fst (act ag c acts lg) = fst (act ag' c acts lg')"
    using it_fold_same [of "clock ag" "''IT Setup Agent''" acts "init_tasks (employee c)" lg
        "clock ag'" lg']
    by (auto simp: m it_act_def split: prod.splits sum.splits)
  show "fst (reflect ag c lg) = fst (reflect ag' c lg')"
    by (simp add: m it_reflect_def Let_def)
qed

lemma tr_same_methods:
  assumes "is_TrainingAgent ag" and "is_TrainingAgent ag'"
  shows "same_methods ag ag'"
  unfolding same_methods_def
proof (intro allI conjI)
  fix c :: ctx and lg lg' :: "log_entry list" and acts :: "intent list"
  from assms have m: "perceive ag = tr_perceive" "perceive ag' = tr_perceive"
    "decide ag = tr_decide" "decide ag' = tr_decide"
    "act ag = tr_act (clock ag) ''Training Agent''" "act ag' = tr_act (clock ag') ''Training Agent''"
    "reflect ag = tr_reflect (clock ag) ''Training Agent''"
    "reflect ag' = tr_reflect (clock ag') ''Training Agent''"
    by (simp_all add: is_TrainingAgent_def)
  show "fst (perceive ag c lg) = fst (perceive ag' c lg')"
    by (simp add: m tr_perceive_def Let_def split: sum.splits)
  show "fst (decide ag c lg) = fst (decide ag' c lg')"
    by (simp add: m tr_decide_def Let_def split: option.splits sum.splits)
  show "fst (act ag c acts lg) = fst (act ag' c acts lg')"
    using tr_fold_same [of "clock ag" "''Training Agent''" acts "init_tasks (employee c)" lg
        "clock ag'" lg']
    by (auto simp: m tr_act_def split: prod.splits sum.splits)
  show "fst (reflect ag c lg) = fst (reflect ag' c lg')"
    by (simp add: m tr_reflect_def Let_def)
qed

lemma bd_same_methods:
  assumes "is_BuddyAgent buddyPool ag" and "is_BuddyAgent buddyPool ag'"
  shows "same_methods ag ag'"
  unfolding same_methods_def
proof (intro allI conjI)
  fix c :: ctx and lg lg' :: "log_entry list" and acts :: "intent list"
  from assms have m: "perceive ag = bd_perceive buddyPool" "perceive ag' = bd_perceive buddyPool"
    "decide ag = bd_decide" "decide ag' = bd_decide"
    "act ag = bd_act (clock ag) ''Buddy Agent''" "act ag' = bd_act (clock ag') ''Buddy Agent''"
    "reflect ag = bd_reflect (clock ag) ''Buddy Agent''"
    "reflect ag' = bd_reflect (clock ag') ''Buddy Agent''"
    by (simp_all add: is_BuddyAgent_def)
  show "fst (perceive ag c lg) = fst (perceive ag' c lg')"
    by (simp add: m bd_perceive_def Let_def split: sum.splits)
  show "fst (decide ag c lg) = fst (decide ag' c lg')"
    by (simp add: m bd_decide_def Let_def split: option.splits sum.splits)
  show "fst (act ag c acts lg) = fst (act ag' c acts lg')"
    using bd_loop_same [of "clock ag" "''Buddy Agent''" acts "init_tasks (employee c)" lg
        "clock ag'" lg']
    by (auto simp: m bd_act_def split: prod.splits sum.splits)
  show "fst (reflect ag c lg) = fst (reflect ag' c lg')"
    by (simp add: m bd_reflect_def Let_def)
qed

lemma hr_run_satisfied:
  assumes "is_HRAgent ag"
    and "id_s ` set hr_requiredDocs \<subseteq> id_d ` set (or_empty (documents (employee c)))"
    and "set hr_policies \<subseteq> set (or_empty (policiesAcknowledged (employee c)))"
    and "flag (benefitsEnrollmentStarted (employee c))"
  shows "\<exists>c' lg'. fst (run ag c) = Inr (c', lg') \<and> employee c' = employee c"
proof -
  from assms(1) have m: "perceive ag = hr_perceive" "decide ag = hr_decide"
    by (simp_all add: is_HRAgent_def)
  have miss: "hr_missing (employee c) = []"
    unfolding hr_missing_def filter_empty_conv find_None_iff using assms(2) by force
  have pend: "hr_pendingPolicies (employee c) = []"
    unfolding hr_pendingPolicies_def filter_empty_conv using assms(3) by auto
  let ?pc = "c\<lparr>hrPerception := Some \<lparr>requiredDocs = hr_requiredDocs, missing = [],
                 submitted = or_empty (documents (employee c))\<rparr>\<rparr>"
  have p: "perceive ag c (start_log ag) = (Inr ?pc, start_log ag)"
    using miss by (simp add: m hr_perceive_def Let_def hr_missing_def)
  have d: "decide ag ?pc (start_log ag) = (Inr [], start_log ag)"
    using pend assms(4) by (simp add: m hr_decide_def Let_def hr_pendingPolicies_def)
  from run_pass [OF p d, of ?pc] show ?thesis by auto
qed

lemma tr_run_satisfied:
  assumes "is_TrainingAgent ag"
    and "lower_or ''default'' (getp (department (employee c))) = Inr d"
    and "tr_rolePath d = Some rms"
    and "id_m ` set (tr_companyWideModules @ rms) \<subseteq> set (or_empty (completedTraining (employee c)))"
    and "flag (managerMeetingScheduled (employee c))" and "flag (teamIntroScheduled (employee c))"
  shows "\<exists>c' lg'. fst (run ag c) = Inr (c', lg') \<and> employee c' = employee c"
proof -
  from assms(1) have m: "perceive ag = tr_perceive" "decide ag = tr_decide"
    by (simp_all add: is_TrainingAgent_def)
  have pend: "filter (\<lambda>m. id_m m \<notin> set (or_empty (completedTraining (employee c))))
      (tr_companyWideModules @ rms) = []"
    unfolding filter_empty_conv using assms(4) by auto
  let ?pc = "c\<lparr>trainingPerception := Some \<lparr>companyWideModules = tr_companyWideModules,
                 roleModules = Some rms,
                 completedModules = or_empty (completedTraining (employee c)),
                 department_t = d\<rparr>\<rparr>"
  have p: "perceive ag c (start_log ag) = (Inr ?pc, start_log ag)"
    by (simp add: m tr_perceive_def assms(2,3))
  have d: "decide ag ?pc (start_log ag) = (Inr [], start_log ag)"
    using pend assms(5,6) by (simp add: m tr_decide_def Let_def)
  from run_pass [OF p d, of ?pc] show ?thesis by auto
qed

lemma bd_run_satisfied:
  assumes "is_BuddyAgent buddyPool ag"
    and "lower_or [] (getp (department (employee c))) = Inr d"
    and "has_buddy (employee c)" and "flag (checkInsScheduled (employee c))"
  shows "\<exists>c' lg'. fst (run ag c) = Inr (c', lg') \<and> employee c' = employee c"
proof -
  from assms(1) have m: "perceive ag = bd_perceive buddyPool" "decide ag = bd_decide"
    by (simp_all add: is_BuddyAgent_def)
  let ?pc = "c\<lparr>buddyPerception := Some \<lparr>candidates = take 3 (bd_ranked buddyPool d),
                 alreadyAssigned = True\<rparr>\<rparr>"
  have p: "perceive ag c (start_log ag) = (Inr ?pc, start_log ag)"
    using assms(3) by (simp add: m bd_perceive_def assms(2) bd_ranked_def has_buddy_def Let_def)
  have d: "decide ag ?pc (start_log ag) = (Inr [], start_log ag)"
    using assms(4) by (simp add: m bd_decide_def Let_def)
  from run_pass [OF p d, of ?pc] show ?thesis by auto
qed

lemma it_profile_access: "it_profile d = Some pr \<Longrightarrow> access pr \<noteq> []"
  by (auto simp: it_profile_def it_engineering_def it_design_def it_product_def it_sales_def
      it_default_def split: if_splits)

lemma it_run_satisfied:
  assumes "is_ITSetupAgent ag" and "tasks (employee c) = Some ts"
    and "lower_or ''default'' (getp (department (employee c))) = Inr d"
    and "it_profile d = Some pr"
    and "flag (emailProvisioned (employee c))"
    and "set (software pr) \<subseteq> set (or_empty (accounts (employee c)))"
    and "set (hardware_p pr) \<subseteq> set (or_empty (hardware (employee c)))"
  shows "\<exists>c' lg'. fst (run ag c) = Inr (c', lg')
     \<and> employee c' =
         (employee c)\<lparr>tasks := Some (ts @ map (it_access_task ''IT Setup Agent'') (access pr))\<rparr>"
proof -
  have sw: "it_neededSoftware pr (employee c) = []"
    unfolding it_neededSoftware_def filter_empty_conv using assms(6) by auto
  have hw: "it_neededHardware pr (employee c) = []"
    unfolding it_neededHardware_def filter_empty_conv using assms(7) by auto
  from it_run [OF assms(1-4), of undefined] assms(5) obtain c' lg' where
    r: "fst (run ag c) = Inr (c', lg')" "employee c' = it_effect pr undefined (employee c)"
    by blast
  have "it_effect pr undefined (employee c) =
      (employee c)\<lparr>tasks := Some (ts @ map (it_access_task ''IT Setup Agent'') (access pr))\<rparr>"
    using assms(2,5) sw hw by (cases "employee c") (simp add: it_effect_def it_tasks_def)
  with r show ?thesis by simp
qed

lemma it_done_run:
  "\<exists>c' lg'. fst (run (ITSetupAgent clock0) (copyFor it_done)) = Inr (c', lg')
     \<and> map id_t (or_empty (tasks (employee c'))) =
         [''it-access-vpn'', ''it-access-ci-cd-pipeline'', ''it-access-staging-servers'',
          ''it-access-code-repositories'']"
proof -
  let ?c = "copyFor it_done"
  have e: "employee ?c = it_done"
    by (simp add: copyFor_def it_done_def ana_def)
  have 1: "lower_or ''default'' (getp (department (employee ?c))) = Inr ''engineering''"
    unfolding e by (simp add: it_done_def ana_def eval_lower)
  have 2: "it_profile ''engineering'' = Some it_engineering" by (simp add: it_profile_def)
  have 3: "flag (emailProvisioned (employee ?c))" unfolding e by (simp add: it_done_def)
  have 4: "set (software it_engineering) \<subseteq> set (or_empty (accounts (employee ?c)))"
    unfolding e by (simp add: it_done_def it_engineering_def)
  have 5: "set (hardware_p it_engineering) \<subseteq> set (or_empty (hardware (employee ?c)))"
    unfolding e by (simp add: it_done_def it_engineering_def)
  from it_run_satisfied [OF is_new_agents(2) copyFor_tasks 1 2 3 4 5] obtain c' lg' where
    r: "fst (run (ITSetupAgent clock0) ?c) = Inr (c', lg')"
    "employee c' = (employee ?c)\<lparr>tasks := Some ([] @ map (it_access_task ''IT Setup Agent'')
        (access it_engineering))\<rparr>"
    by blast
  have "map id_t (or_empty (tasks (employee c'))) =
         [''it-access-vpn'', ''it-access-ci-cd-pipeline'', ''it-access-staging-servers'',
          ''it-access-code-repositories'']"
    unfolding r(2) by (simp add: it_engineering_def it_access_task_def eval_char)
  with r(1) show ?thesis by (intro exI [of _ c'] exI [of _ lg'] conjI)
qed

text \<open>
  Claim C4, as stated, for the IT agent: an employee with the email provisioned, every
  license of the engineering profile among the accounts and every item among the hardware
  still gets four new tasks from a run, the access grants, which the agent issues
  unconditionally.
\<close>

theorem it_satisfied_counterexample:
  "flag (emailProvisioned it_done)
   \<and> set (software it_engineering) \<subseteq> set (or_empty (accounts it_done))
   \<and> set (hardware_p it_engineering) \<subseteq> set (or_empty (hardware it_done))
   \<and> tasks (employee (copyFor it_done)) = Some []
   \<and> (\<exists>c' lg'. fst (run (ITSetupAgent clock0) (copyFor it_done)) = Inr (c', lg')
          \<and> map id_t (or_empty (tasks (employee c'))) =
              [''it-access-vpn'', ''it-access-ci-cd-pipeline'', ''it-access-staging-servers'',
               ''it-access-code-repositories''])"
  using it_done_run by (simp add: it_done_def it_engineering_def)

text \<open>
  Claim C4, amended: for the HR, the Training and the Buddy agent and every employee whose
  gaps for that agent are already satisfied (required documents submitted, policies
  acknowledged, benefitsEnrollmentStarted set; all training modules of the department in
  completedTraining, managerMeetingScheduled and teamIntroScheduled set; buddy assigned and
  checkInsScheduled set), a run fulfils and leaves the employee as it was, with zero new
  tasks. For the IT agent and an employee with emailProvisioned set, all profile software in
  accounts and all profile hardware in hardware, a run adds exactly the access-grant tasks of
  the profile, which is never an empty list, and changes nothing else. For every agent run
  twice against the same input, the second run settles with the same context or the same
  error as the first, hence with the same task ids; so do any two agents of one class,
  whatever their logs and clocks.
\<close>

theorem agents_idempotent:
  "(is_HRAgent ag
      \<and> id_s ` set hr_requiredDocs \<subseteq> id_d ` set (or_empty (documents (employee c)))
      \<and> set hr_policies \<subseteq> set (or_empty (policiesAcknowledged (employee c)))
      \<and> flag (benefitsEnrollmentStarted (employee c))
    \<longrightarrow> (\<exists>c' lg'. fst (run ag c) = Inr (c', lg') \<and> employee c' = employee c))
   \<and> (is_TrainingAgent ag
      \<and> lower_or ''default'' (getp (department (employee c))) = Inr d
      \<and> tr_rolePath d = Some rms
      \<and> id_m ` set (tr_companyWideModules @ rms)
          \<subseteq> set (or_empty (completedTraining (employee c)))
      \<and> flag (managerMeetingScheduled (employee c)) \<and> flag (teamIntroScheduled (employee c))
    \<longrightarrow> (\<exists>c' lg'. fst (run ag c) = Inr (c', lg') \<and> employee c' = employee c))
   \<and> (is_BuddyAgent buddyPool ag
      \<and> lower_or [] (getp (department (employee c))) = Inr d
      \<and> has_buddy (employee c) \<and> flag (checkInsScheduled (employee c))
    \<longrightarrow> (\<exists>c' lg'. fst (run ag c) = Inr (c', lg') \<and> employee c' = employee c))
   \<and> (is_ITSetupAgent ag \<and> tasks (employee c) = Some ts
      \<and> lower_or ''default'' (getp (department (employee c))) = Inr d
      \<and> it_profile d = Some pr
      \<and> flag (emailProvisioned (employee c))
      \<and> set (software pr) \<subseteq> set (or_empty (accounts (employee c)))
      \<and> set (hardware_p pr) \<subseteq> set (or_empty (hardware (employee c)))
    \<longrightarrow> access pr \<noteq> []
        \<and> (\<exists>c' lg'. fst (run ag c) = Inr (c', lg')
              \<and> employee c' =
                  (employee c)\<lparr>tasks := Some (ts @ map (it_access_task ''IT Setup Agent'')
                                                    (access pr))\<rparr>))
   \<and> (is_HRAgent ag \<or> is_ITSetupAgent ag \<or> is_TrainingAgent ag \<or> is_BuddyAgent buddyPool ag
    \<longrightarrow> outcome (fst (run (snd (run ag c)) c)) = outcome (fst (run ag c)))
   \<and> (is_HRAgent ag \<and> is_HRAgent ag' \<or> is_ITSetupAgent ag \<and> is_ITSetupAgent ag'
      \<or> is_TrainingAgent ag \<and> is_TrainingAgent ag'
      \<or> is_BuddyAgent buddyPool ag \<and> is_BuddyAgent buddyPool ag'
    \<longrightarrow> outcome (fst (run ag' c)) = outcome (fst (run ag c)))"
proof (intro conjI impI)
  assume "is_HRAgent ag
      \<and> id_s ` set hr_requiredDocs \<subseteq> id_d ` set (or_empty (documents (employee c)))
      \<and> set hr_policies \<subseteq> set (or_empty (policiesAcknowledged (employee c)))
      \<and> flag (benefitsEnrollmentStarted (employee c))"
  then show "\<exists>c' lg'. fst (run ag c) = Inr (c', lg') \<and> employee c' = employee c"
    by (intro hr_run_satisfied) simp_all
next
  assume "is_TrainingAgent ag
      \<and> lower_or ''default'' (getp (department (employee c))) = Inr d
      \<and> tr_rolePath d = Some rms
      \<and> id_m ` set (tr_companyWideModules @ rms)
          \<subseteq> set (or_empty (completedTraining (employee c)))
      \<and> flag (managerMeetingScheduled (employee c)) \<and> flag (teamIntroScheduled (employee c))"
  then show "\<exists>c' lg'. fst (run ag c) = Inr (c', lg') \<and> employee c' = employee c"
    by (intro tr_run_satisfied [of ag c d rms]) simp_all
next
  assume "is_BuddyAgent buddyPool ag
      \<and> lower_or [] (getp (department (employee c))) = Inr d
      \<and> has_buddy (employee c) \<and> flag (checkInsScheduled (employee c))"
  then show "\<exists>c' lg'. fst (run ag c) = Inr (c', lg') \<and> employee c' = employee c"
    by (intro bd_run_satisfied [of buddyPool ag c d]) simp_all
next
  assume a: "is_ITSetupAgent ag \<and> tasks (employee c) = Some ts
      \<and> lower_or ''default'' (getp (department (employee c))) = Inr d
      \<and> it_profile d = Some pr
      \<and> flag (emailProvisioned (employee c))
      \<and> set (software pr) \<subseteq> set (or_empty (accounts (employee c)))
      \<and> set (hardware_p pr) \<subseteq> set (or_empty (hardware (employee c)))"
  then show "access pr \<noteq> []" by (intro it_profile_access [of d]) simp
  from a show "\<exists>c' lg'. fst (run ag c) = Inr (c', lg')
              \<and> employee c' =
                  (employee c)\<lparr>tasks := Some (ts @ map (it_access_task ''IT Setup Agent'')
                                                    (access pr))\<rparr>"
    by (intro it_run_satisfied [of ag c ts d pr]) simp_all
next
  assume "is_HRAgent ag \<or> is_ITSetupAgent ag \<or> is_TrainingAgent ag \<or> is_BuddyAgent buddyPool ag"
  then have "same_methods (snd (run ag c)) ag"
    by (elim disjE)
       (blast intro: hr_same_methods it_same_methods tr_same_methods bd_same_methods
          run_keeps_class)+
  then show "outcome (fst (run (snd (run ag c)) c)) = outcome (fst (run ag c))"
    by (rule run_same)
next
  assume "is_HRAgent ag \<and> is_HRAgent ag' \<or> is_ITSetupAgent ag \<and> is_ITSetupAgent ag'
      \<or> is_TrainingAgent ag \<and> is_TrainingAgent ag'
      \<or> is_BuddyAgent buddyPool ag \<and> is_BuddyAgent buddyPool ag'"
  then have "same_methods ag' ag"
    by (elim disjE conjE)
       (blast intro: hr_same_methods it_same_methods tr_same_methods bd_same_methods)+
  then show "outcome (fst (run ag' c)) = outcome (fst (run ag c))"
    by (rule run_same)
qed

theorem agents_idempotent_witness:
  "(\<exists>c' lg'. fst (run (HRAgent clock0) (copyFor hr_done)) = Inr (c', lg')
       \<and> employee c' = employee (copyFor hr_done))
   \<and> (\<exists>c' lg'. fst (run (TrainingAgent clock0) (copyFor tr_done)) = Inr (c', lg')
       \<and> employee c' = employee (copyFor tr_done))
   \<and> (\<exists>c' lg'. fst (run (BuddyAgent buddyPool0 clock0) (copyFor settled0)) = Inr (c', lg')
       \<and> employee c' = employee (copyFor settled0))
   \<and> (\<exists>c' lg'. fst (run (ITSetupAgent clock0) (copyFor it_done)) = Inr (c', lg')
       \<and> employee c' =
           (employee (copyFor it_done))\<lparr>tasks :=
              Some ([] @ map (it_access_task ''IT Setup Agent'') (access it_engineering))\<rparr>)
   \<and> outcome (fst (run (snd (run (HRAgent clock0) (copyFor ana))) (copyFor ana)))
       = outcome (fst (run (HRAgent clock0) (copyFor ana)))
   \<and> outcome (fst (run (ITSetupAgent (\<lambda>n. [])) (copyFor ana)))
       = outcome (fst (run (ITSetupAgent clock0) (copyFor ana)))"
proof -
  have e: "employee (copyFor hr_done) = hr_done" "employee (copyFor tr_done) = tr_done"
    "employee (copyFor it_done) = it_done"
    by (simp_all add: copyFor_def hr_done_def tr_done_def it_done_def ana_def)
  have hr: "is_HRAgent (HRAgent clock0)
      \<and> id_s ` set hr_requiredDocs \<subseteq> id_d ` set (or_empty (documents (employee (copyFor hr_done))))
      \<and> set hr_policies \<subseteq> set (or_empty (policiesAcknowledged (employee (copyFor hr_done))))
      \<and> flag (benefitsEnrollmentStarted (employee (copyFor hr_done)))"
    unfolding e by (simp add: hr_done_def hr_requiredDocs_def hr_policies_def)
  note 1 = agents_idempotent [where ag = "HRAgent clock0" and c = "copyFor hr_done",
      THEN conjunct1, rule_format, OF hr]
  have tr: "is_TrainingAgent (TrainingAgent clock0)
      \<and> lower_or ''default'' (getp (department (employee (copyFor tr_done)))) = Inr ''engineering''
      \<and> tr_rolePath ''engineering'' = Some tr_engineering
      \<and> id_m ` set (tr_companyWideModules @ tr_engineering)
          \<subseteq> set (or_empty (completedTraining (employee (copyFor tr_done))))
      \<and> flag (managerMeetingScheduled (employee (copyFor tr_done)))
      \<and> flag (teamIntroScheduled (employee (copyFor tr_done)))"
    unfolding e
    by (simp add: tr_done_def ana_def eval_lower tr_rolePath_def tr_companyWideModules_def
        tr_engineering_def)
  note 2 = agents_idempotent [where ag = "TrainingAgent clock0" and c = "copyFor tr_done"
      and d = "''engineering''" and rms = tr_engineering,
      THEN conjunct2, THEN conjunct1, rule_format, OF tr]
  have bd: "is_BuddyAgent buddyPool0 (BuddyAgent buddyPool0 clock0)
      \<and> lower_or [] (getp (department (employee (copyFor settled0)))) = Inr ''engineering''
      \<and> has_buddy (employee (copyFor settled0)) \<and> flag (checkInsScheduled (employee (copyFor settled0)))"
    by (simp add: copyFor_def settled0_def profile0_def has_buddy_def eval_lower)
  note 3 = agents_idempotent [where ag = "BuddyAgent buddyPool0 clock0" and c = "copyFor settled0"
      and d = "''engineering''" and buddyPool = buddyPool0,
      THEN conjunct2, THEN conjunct2, THEN conjunct1, rule_format, OF bd]
  have it: "is_ITSetupAgent (ITSetupAgent clock0) \<and> tasks (employee (copyFor it_done)) = Some []
      \<and> lower_or ''default'' (getp (department (employee (copyFor it_done)))) = Inr ''engineering''
      \<and> it_profile ''engineering'' = Some it_engineering
      \<and> flag (emailProvisioned (employee (copyFor it_done)))
      \<and> set (software it_engineering) \<subseteq> set (or_empty (accounts (employee (copyFor it_done))))
      \<and> set (hardware_p it_engineering) \<subseteq> set (or_empty (hardware (employee (copyFor it_done))))"
    unfolding e
    by (simp add: it_done_def ana_def eval_lower it_profile_def it_engineering_def)
  note 4 = agents_idempotent [where ag = "ITSetupAgent clock0" and c = "copyFor it_done"
      and d = "''engineering''" and pr = it_engineering and ts = "[]",
      THEN conjunct2, THEN conjunct2, THEN conjunct2, THEN conjunct1, rule_format, OF it,
      THEN conjunct2]
  have cls: "is_HRAgent (HRAgent clock0) \<or> is_ITSetupAgent (HRAgent clock0)
      \<or> is_TrainingAgent (HRAgent clock0) \<or> is_BuddyAgent [] (HRAgent clock0)"
    by simp
  note 5 = agents_idempotent [where ag = "HRAgent clock0" and c = "copyFor ana"
      and buddyPool = "[]",
      THEN conjunct2, THEN conjunct2, THEN conjunct2, THEN conjunct2, THEN conjunct1,
      rule_format, OF cls]
  have two: "is_HRAgent (ITSetupAgent clock0) \<and> is_HRAgent (ITSetupAgent (\<lambda>n. []))
      \<or> is_ITSetupAgent (ITSetupAgent clock0) \<and> is_ITSetupAgent (ITSetupAgent (\<lambda>n. []))
      \<or> is_TrainingAgent (ITSetupAgent clock0) \<and> is_TrainingAgent (ITSetupAgent (\<lambda>n. []))
      \<or> is_BuddyAgent [] (ITSetupAgent clock0) \<and> is_BuddyAgent [] (ITSetupAgent (\<lambda>n. []))"
    by simp
  note 6 = agents_idempotent [where ag = "ITSetupAgent clock0"
      and ag' = "ITSetupAgent (\<lambda>n. [])" and c = "copyFor ana" and buddyPool = "[]",
      THEN conjunct2, THEN conjunct2, THEN conjunct2, THEN conjunct2, THEN conjunct2,
      rule_format, OF two]
  from 1 2 3 4 5 6 show ?thesis by (intro conjI)
qed


section \<open>Task ids\<close>

lemma distinct_map_prefix: "distinct (map (\<lambda>x. p @ g x) xs) = distinct (map g xs)"
  by (induction xs) auto

lemma hr_tasks_ids:
  "distinct (map id_t (hr_tasks emp))"
  "t \<in> set (hr_tasks emp) \<Longrightarrow> agent t = ''HR Agent'' \<and> (\<exists>s. id_t t = ''hr-'' @ s)"
proof -
  have d1: "distinct (map (id_t \<circ> hr_doc_task ''HR Agent'') (hr_missing emp))"
    unfolding hr_missing_def
    by (rule distinct_map_filter) (simp add: hr_requiredDocs_def hr_doc_task_def)
  have d2: "distinct (map (id_t \<circ> hr_policy_task ''HR Agent'') (hr_pendingPolicies emp))"
    unfolding hr_pendingPolicies_def
    by (rule distinct_map_filter) (simp add: hr_policies_def hr_policy_task_def)
  from d1 d2 show "distinct (map id_t (hr_tasks emp))"
    by (auto simp add: hr_tasks_def hr_doc_task_def hr_policy_task_def hr_benefits_task_def)
  show "t \<in> set (hr_tasks emp) \<Longrightarrow> agent t = ''HR Agent'' \<and> (\<exists>s. id_t t = ''hr-'' @ s)"
    by (auto simp add: hr_tasks_def hr_doc_task_def hr_policy_task_def hr_benefits_task_def
        split: if_splits)
qed

lemma it_profile_catalog:
  assumes "it_profile d = Some pr"
  shows "pr = it_engineering \<or> pr = it_design \<or> pr = it_product \<or> pr = it_sales \<or> pr = it_default"
  using assms by (simp add: it_profile_def split: if_splits)

lemma it_software_slugs:
  assumes "it_profile d = Some pr"
  shows "distinct (map (\<lambda>sw. replace_runs is_space (toLowerCase sw)) (software pr))"
  using it_profile_catalog [OF assms]
  by (elim disjE)
     (simp_all add: it_engineering_def it_design_def it_product_def it_sales_def it_default_def
        eval_char)

lemma it_hardware_slugs:
  assumes "it_profile d = Some pr"
  shows "distinct (map (\<lambda>hw. replace_runs (\<lambda>c. is_space c \<or> is_quote c) (toLowerCase hw))
           (hardware_p pr))"
  using it_profile_catalog [OF assms]
  by (elim disjE)
     (simp_all add: it_engineering_def it_design_def it_product_def it_sales_def it_default_def
        eval_char)

lemma it_access_slugs:
  assumes "it_profile d = Some pr"
  shows "distinct (map (\<lambda>acc. replace_runs (\<lambda>c. is_space c \<or> is_slash c) (toLowerCase acc))
           (access pr))"
  using it_profile_catalog [OF assms]
  by (elim disjE)
     (simp_all add: it_engineering_def it_design_def it_product_def it_sales_def it_default_def
        eval_char)

lemma it_tasks_ids:
  assumes "it_profile d = Some pr"
  shows "distinct (map id_t (it_tasks pr addr emp))"
    and "t \<in> set (it_tasks pr addr emp) \<Longrightarrow>
           agent t = ''IT Setup Agent'' \<and> (\<exists>s. id_t t = ''it-'' @ s)"
proof -
  have e1: "id_t \<circ> it_sw_task ''IT Setup Agent''
      = (\<lambda>sw. ''it-sw-'' @ replace_runs is_space (toLowerCase sw))"
    by (simp add: fun_eq_iff it_sw_task_def)
  have e2: "id_t \<circ> it_hw_task ''IT Setup Agent''
      = (\<lambda>hw. ''it-hw-'' @ replace_runs (\<lambda>c. is_space c \<or> is_quote c) (toLowerCase hw))"
    by (simp add: fun_eq_iff it_hw_task_def)
  have e3: "id_t \<circ> it_access_task ''IT Setup Agent''
      = (\<lambda>acc. ''it-access-'' @ replace_runs (\<lambda>c. is_space c \<or> is_slash c) (toLowerCase acc))"
    by (simp add: fun_eq_iff it_access_task_def)
  have d1: "distinct (map (id_t \<circ> it_sw_task ''IT Setup Agent'') (it_neededSoftware pr emp))"
    unfolding it_neededSoftware_def e1
    by (rule distinct_map_filter, unfold distinct_map_prefix) (rule it_software_slugs [OF assms])
  have d2: "distinct (map (id_t \<circ> it_hw_task ''IT Setup Agent'') (it_neededHardware pr emp))"
    unfolding it_neededHardware_def e2
    by (rule distinct_map_filter, unfold distinct_map_prefix) (rule it_hardware_slugs [OF assms])
  have d3: "distinct (map (id_t \<circ> it_access_task ''IT Setup Agent'') (access pr))"
    unfolding e3 distinct_map_prefix by (rule it_access_slugs [OF assms])
  from d1 d2 d3 show "distinct (map id_t (it_tasks pr addr emp))"
    by (auto simp add: it_tasks_def it_email_task_def it_sw_task_def it_hw_task_def
        it_access_task_def)
  show "t \<in> set (it_tasks pr addr emp) \<Longrightarrow>
           agent t = ''IT Setup Agent'' \<and> (\<exists>s. id_t t = ''it-'' @ s)"
    by (auto simp add: it_tasks_def it_email_task_def it_sw_task_def it_hw_task_def
        it_access_task_def split: if_splits)
qed

lemma tr_rolePath_catalog:
  assumes "tr_rolePath d = Some rms"
  shows "rms = tr_engineering \<or> rms = tr_design \<or> rms = tr_product \<or> rms = tr_sales \<or> rms = []"
  using assms by (simp add: tr_rolePath_def split: if_splits)

lemma tr_module_ids:
  assumes "tr_rolePath d = Some rms"
  shows "distinct (map id_m (tr_companyWideModules @ rms))"
    and "''manager-1on1'' \<notin> id_m ` set (tr_companyWideModules @ rms)"
    and "''team-intro'' \<notin> id_m ` set (tr_companyWideModules @ rms)"
  using tr_rolePath_catalog [OF assms]
  by (elim disjE;
      simp add: tr_companyWideModules_def tr_engineering_def tr_design_def tr_product_def
        tr_sales_def)+

lemma tr_tasks_ids:
  assumes "tr_rolePath d = Some rms"
  shows "distinct (map id_t (tr_tasks rms emp))"
    and "t \<in> set (tr_tasks rms emp) \<Longrightarrow>
           agent t = ''Training Agent'' \<and> (\<exists>s. id_t t = ''training-'' @ s)"
proof -
  let ?p = "tr_pendingModules rms emp"
  have w: "map id_t (map (tr_week1_task ''Training Agent'') (take 4 ?p))
        @ map id_t (map (tr_week2_task ''Training Agent'') (drop 4 ?p))
      = map (\<lambda>m. ''training-'' @ id_m m) ?p"
  proof -
    have "map (\<lambda>m. ''training-'' @ id_m m) ?p
        = map (\<lambda>m. ''training-'' @ id_m m) (take 4 ?p @ drop 4 ?p)"
      by simp
    then show ?thesis
      unfolding map_append by (simp add: tr_week1_task_def tr_week2_task_def comp_def)
  qed
  have d: "distinct (map id_m ?p)"
    unfolding tr_pendingModules_def by (rule distinct_map_filter) (rule tr_module_ids [OF assms])
  have s: "id_m ` set ?p \<subseteq> id_m ` set (tr_companyWideModules @ rms)"
    unfolding tr_pendingModules_def by auto
  with tr_module_ids(2,3) [OF assms]
  have n: "''manager-1on1'' \<notin> id_m ` set ?p" "''team-intro'' \<notin> id_m ` set ?p"
    by blast+
  have "map id_t (tr_tasks rms emp) =
      map (\<lambda>m. ''training-'' @ id_m m) ?p
      @ (if \<not> flag (managerMeetingScheduled emp) then [''training-manager-1on1''] else [])
      @ (if \<not> flag (teamIntroScheduled emp) then [''training-team-intro''] else [])"
    unfolding tr_tasks_def map_append append_assoc [symmetric] w
    by (simp add: tr_manager_task_def tr_team_task_def)
  moreover have "distinct (map (\<lambda>m. ''training-'' @ id_m m) ?p)"
    unfolding distinct_map_prefix by (rule d)
  moreover from n have "''training-manager-1on1'' \<notin> set (map (\<lambda>m. ''training-'' @ id_m m) ?p)"
    "''training-team-intro'' \<notin> set (map (\<lambda>m. ''training-'' @ id_m m) ?p)"
    by auto
  ultimately show "distinct (map id_t (tr_tasks rms emp))"
    by (simp del: set_map)
  show "t \<in> set (tr_tasks rms emp) \<Longrightarrow>
           agent t = ''Training Agent'' \<and> (\<exists>s. id_t t = ''training-'' @ s)"
    by (auto simp add: tr_tasks_def tr_week1_task_def tr_week2_task_def tr_manager_task_def
        tr_team_task_def split: if_splits dest: in_set_takeD in_set_dropD)
qed

lemma bd_tasks_ids:
  "distinct (map id_t (bd_tasks best emp))"
  "t \<in> set (bd_tasks best emp) \<Longrightarrow> agent t = ''Buddy Agent'' \<and> (\<exists>s. id_t t = ''buddy-'' @ s)"
proof -
  have ids: "map id_t (bd_tasks best emp) =
      (if \<not> has_buddy emp then [''buddy-intro-meeting''] else [])
      @ (if \<not> flag (checkInsScheduled emp)
         then [''buddy-checkin-day7'', ''buddy-checkin-day14'', ''buddy-checkin-day30'',
               ''buddy-checkin-day60'', ''buddy-checkin-day90''] else [])"
    by (simp add: bd_tasks_def bd_checkIns_def bd_intro_task_def bd_checkin_task_def
        string_of_nat.simps eval_char)
  show "distinct (map id_t (bd_tasks best emp))" unfolding ids by simp
  show "t \<in> set (bd_tasks best emp) \<Longrightarrow> agent t = ''Buddy Agent'' \<and> (\<exists>s. id_t t = ''buddy-'' @ s)"
    by (auto simp add: bd_tasks_def bd_intro_task_def bd_checkin_task_def split: if_splits)
qed

lemma hr_result_ids:
  assumes "is_HRAgent ag"
  shows "distinct (map id_t (result_tasks (fst (run ag (copyFor e)))))"
    and "t \<in> set (result_tasks (fst (run ag (copyFor e)))) \<Longrightarrow>
           agent t = ''HR Agent'' \<and> (\<exists>s. id_t t = ''hr-'' @ s)"
proof -
  from hr_run [OF assms copyFor_tasks] obtain c' lg' where
    "fst (run ag (copyFor e)) = Inr (c', lg')" "employee c' = hr_effect (employee (copyFor e))"
    by blast
  then have r: "result_tasks (fst (run ag (copyFor e))) = hr_tasks (employee (copyFor e))"
    by (simp add: result_tasks_def)
  show "distinct (map id_t (result_tasks (fst (run ag (copyFor e)))))"
    unfolding r by (rule hr_tasks_ids)
  show "t \<in> set (result_tasks (fst (run ag (copyFor e)))) \<Longrightarrow>
           agent t = ''HR Agent'' \<and> (\<exists>s. id_t t = ''hr-'' @ s)"
    unfolding r by (rule hr_tasks_ids)
qed

lemma it_result_ids:
  assumes "is_ITSetupAgent ag"
  shows "distinct (map id_t (result_tasks (fst (run ag (copyFor e)))))"
    and "t \<in> set (result_tasks (fst (run ag (copyFor e)))) \<Longrightarrow>
           agent t = ''IT Setup Agent'' \<and> (\<exists>s. id_t t = ''it-'' @ s)"
proof -
  have "distinct (map id_t (result_tasks (fst (run ag (copyFor e)))))
      \<and> (t \<in> set (result_tasks (fst (run ag (copyFor e)))) \<longrightarrow>
           agent t = ''IT Setup Agent'' \<and> (\<exists>s. id_t t = ''it-'' @ s))"
    using it_run_cases [OF assms copyFor_tasks, of e]
  proof (elim disjE exE conjE)
    fix err
    assume "fst (run ag (copyFor e)) = Inl err"
    then show ?thesis by (simp add: result_tasks_def)
  next
    fix c' lg' d pr addr
    assume r: "fst (run ag (copyFor e)) = Inr (c', lg')"
      and p: "it_profile d = Some pr"
      and f: "employee c' = it_effect pr addr (employee (copyFor e))"
    have r': "result_tasks (fst (run ag (copyFor e))) = it_tasks pr addr (employee (copyFor e))"
      by (simp add: r f result_tasks_def)
    show ?thesis unfolding r' using it_tasks_ids [OF p] by blast
  qed
  then show "distinct (map id_t (result_tasks (fst (run ag (copyFor e)))))"
    and "t \<in> set (result_tasks (fst (run ag (copyFor e)))) \<Longrightarrow>
           agent t = ''IT Setup Agent'' \<and> (\<exists>s. id_t t = ''it-'' @ s)"
    by blast+
qed

lemma tr_result_ids:
  assumes "is_TrainingAgent ag"
  shows "distinct (map id_t (result_tasks (fst (run ag (copyFor e)))))"
    and "t \<in> set (result_tasks (fst (run ag (copyFor e)))) \<Longrightarrow>
           agent t = ''Training Agent'' \<and> (\<exists>s. id_t t = ''training-'' @ s)"
proof -
  have "distinct (map id_t (result_tasks (fst (run ag (copyFor e)))))
      \<and> (t \<in> set (result_tasks (fst (run ag (copyFor e)))) \<longrightarrow>
           agent t = ''Training Agent'' \<and> (\<exists>s. id_t t = ''training-'' @ s))"
    using tr_run_cases [OF assms copyFor_tasks, of e]
  proof (elim disjE exE conjE)
    fix err
    assume "fst (run ag (copyFor e)) = Inl err"
    then show ?thesis by (simp add: result_tasks_def)
  next
    fix c' lg' d rms
    assume r: "fst (run ag (copyFor e)) = Inr (c', lg')"
      and p: "tr_rolePath d = Some rms"
      and f: "employee c' = tr_effect rms (employee (copyFor e))"
    have r': "result_tasks (fst (run ag (copyFor e))) = tr_tasks rms (employee (copyFor e))"
      by (simp add: r f result_tasks_def)
    show ?thesis unfolding r' using tr_tasks_ids [OF p] by blast
  qed
  then show "distinct (map id_t (result_tasks (fst (run ag (copyFor e)))))"
    and "t \<in> set (result_tasks (fst (run ag (copyFor e)))) \<Longrightarrow>
           agent t = ''Training Agent'' \<and> (\<exists>s. id_t t = ''training-'' @ s)"
    by blast+
qed

lemma bd_result_ids:
  assumes "is_BuddyAgent buddyPool ag"
  shows "distinct (map id_t (result_tasks (fst (run ag (copyFor e)))))"
    and "t \<in> set (result_tasks (fst (run ag (copyFor e)))) \<Longrightarrow>
           agent t = ''Buddy Agent'' \<and> (\<exists>s. id_t t = ''buddy-'' @ s)"
proof -
  have "distinct (map id_t (result_tasks (fst (run ag (copyFor e)))))
      \<and> (t \<in> set (result_tasks (fst (run ag (copyFor e)))) \<longrightarrow>
           agent t = ''Buddy Agent'' \<and> (\<exists>s. id_t t = ''buddy-'' @ s))"
    using bd_run_cases [OF assms copyFor_tasks, of e]
  proof (elim disjE exE conjE)
    fix err
    assume "fst (run ag (copyFor e)) = Inl err"
    then show ?thesis by (simp add: result_tasks_def)
  next
    fix c' lg' best
    assume r: "fst (run ag (copyFor e)) = Inr (c', lg')"
      and f: "employee c' = bd_effect best (employee (copyFor e))"
    have r': "result_tasks (fst (run ag (copyFor e))) = bd_tasks best (employee (copyFor e))"
      by (simp add: r f result_tasks_def)
    show ?thesis unfolding r' using bd_tasks_ids [where best = best] by blast
  qed
  then show "distinct (map id_t (result_tasks (fst (run ag (copyFor e)))))"
    and "t \<in> set (result_tasks (fst (run ag (copyFor e)))) \<Longrightarrow>
           agent t = ''Buddy Agent'' \<and> (\<exists>s. id_t t = ''buddy-'' @ s)"
    by blast+
qed

text \<open>Ids under different namespaces differ.\<close>

lemma namespaces_differ:
  "''hr-'' @ s \<noteq> ''it-'' @ s'" "''hr-'' @ s \<noteq> ''training-'' @ s'" "''hr-'' @ s \<noteq> ''buddy-'' @ s'"
  "''it-'' @ s \<noteq> ''training-'' @ s'" "''it-'' @ s \<noteq> ''buddy-'' @ s'"
  "''training-'' @ s \<noteq> ''buddy-'' @ s'"
  by simp_all

lemma merged_ids:
  fixes a b c e :: "task list"
  assumes "distinct (map id_t a)" "distinct (map id_t b)" "distinct (map id_t c)"
    "distinct (map id_t e)"
    and "\<And>t. t \<in> set a \<Longrightarrow> agent t = ''HR Agent'' \<and> (\<exists>s. id_t t = ''hr-'' @ s)"
    and "\<And>t. t \<in> set b \<Longrightarrow> agent t = ''IT Setup Agent'' \<and> (\<exists>s. id_t t = ''it-'' @ s)"
    and "\<And>t. t \<in> set c \<Longrightarrow> agent t = ''Training Agent'' \<and> (\<exists>s. id_t t = ''training-'' @ s)"
    and "\<And>t. t \<in> set e \<Longrightarrow> agent t = ''Buddy Agent'' \<and> (\<exists>s. id_t t = ''buddy-'' @ s)"
  shows "distinct (map id_t (a @ b @ c @ e))"
    and "\<forall>t\<in>set (a @ b @ c @ e).
          agent t = ''HR Agent'' \<and> take 3 (id_t t) = ''hr-''
        \<or> agent t = ''IT Setup Agent'' \<and> take 3 (id_t t) = ''it-''
        \<or> agent t = ''Training Agent'' \<and> take 9 (id_t t) = ''training-''
        \<or> agent t = ''Buddy Agent'' \<and> take 6 (id_t t) = ''buddy-''"
proof -
  have ab: "id_t x \<noteq> id_t y" if "x \<in> set a" "y \<in> set b" for x y
    using assms(5) [OF that(1)] assms(6) [OF that(2)] namespaces_differ(1) by metis
  have ac: "id_t x \<noteq> id_t y" if "x \<in> set a" "y \<in> set c" for x y
    using assms(5) [OF that(1)] assms(7) [OF that(2)] namespaces_differ(2) by metis
  have ae: "id_t x \<noteq> id_t y" if "x \<in> set a" "y \<in> set e" for x y
    using assms(5) [OF that(1)] assms(8) [OF that(2)] namespaces_differ(3) by metis
  have bc: "id_t x \<noteq> id_t y" if "x \<in> set b" "y \<in> set c" for x y
    using assms(6) [OF that(1)] assms(7) [OF that(2)] namespaces_differ(4) by metis
  have be: "id_t x \<noteq> id_t y" if "x \<in> set b" "y \<in> set e" for x y
    using assms(6) [OF that(1)] assms(8) [OF that(2)] namespaces_differ(5) by metis
  have ce: "id_t x \<noteq> id_t y" if "x \<in> set c" "y \<in> set e" for x y
    using assms(7) [OF that(1)] assms(8) [OF that(2)] namespaces_differ(6) by metis
  from assms(1-4) ab ac ae bc be ce show "distinct (map id_t (a @ b @ c @ e))"
    by (auto simp add: image_iff)
  have ta: "take 3 (id_t t) = ''hr-''" if "t \<in> set a" for t
    using assms(5) [OF that] by auto
  have tb: "take 3 (id_t t) = ''it-''" if "t \<in> set b" for t
    using assms(6) [OF that] by auto
  have tc: "take 9 (id_t t) = ''training-''" if "t \<in> set c" for t
    using assms(7) [OF that] by auto
  have te: "take 6 (id_t t) = ''buddy-''" if "t \<in> set e" for t
    using assms(8) [OF that] by auto
  show "\<forall>t\<in>set (a @ b @ c @ e).
          agent t = ''HR Agent'' \<and> take 3 (id_t t) = ''hr-''
        \<or> agent t = ''IT Setup Agent'' \<and> take 3 (id_t t) = ''it-''
        \<or> agent t = ''Training Agent'' \<and> take 9 (id_t t) = ''training-''
        \<or> agent t = ''Buddy Agent'' \<and> take 6 (id_t t) = ''buddy-''"
  proof
    fix t assume "t \<in> set (a @ b @ c @ e)"
    then consider "t \<in> set a" | "t \<in> set b" | "t \<in> set c" | "t \<in> set e" by auto
    then show "agent t = ''HR Agent'' \<and> take 3 (id_t t) = ''hr-''
        \<or> agent t = ''IT Setup Agent'' \<and> take 3 (id_t t) = ''it-''
        \<or> agent t = ''Training Agent'' \<and> take 9 (id_t t) = ''training-''
        \<or> agent t = ''Buddy Agent'' \<and> take 6 (id_t t) = ''buddy-''"
    proof cases
      case 1 with assms(5) [OF 1] ta [OF 1] show ?thesis by blast
    next
      case 2 with assms(6) [OF 2] tb [OF 2] show ?thesis by blast
    next
      case 3 with assms(7) [OF 3] tc [OF 3] show ?thesis by blast
    next
      case 4 with assms(8) [OF 4] te [OF 4] show ?thesis by blast
    qed
  qed
qed

lemma ana_plan_ids:
  assumes "mset order = mset [0, 1, 2, 3 :: nat]"
  shows "\<exists>p orch'. onboard orch0 env0 order ana = Some (p, orch')
     \<and> map id_t (or_empty (tasks (employee_p p))) = ana_ids"
proof -
  let ?e = "shared_employee env0 ana"
  let ?c = "copyFor ?e"
  from ana_hr_run [OF orch0_agents(1)] obtain c_hr l_hr where
    hr: "fst (run (hr_agent orch0) ?c) = Inr (c_hr, l_hr)" "employee c_hr = hr_effect ?e"
    by blast
  from ana_it_run [OF orch0_agents(2)] obtain c_it l_it where
    it: "fst (run (it_agent orch0) ?c) = Inr (c_it, l_it)"
      "employee c_it = it_effect it_engineering ''ana.lopez@company.com'' ?e"
    by blast
  from ana_tr_run [OF orch0_agents(3)] obtain c_tr l_tr where
    tr: "fst (run (training_agent orch0) ?c) = Inr (c_tr, l_tr)"
      "employee c_tr = tr_effect tr_engineering ?e"
    by blast
  from ana_bd_run [OF orch0_agents(4)] obtain c_bd l_bd where
    bd: "fst (run (buddy_agent orch0) ?c) = Inr (c_bd, l_bd)"
      "employee c_bd = bd_effect (score_buddy ''engineering'' (buddyPool0 ! 5)) ?e"
    by blast
  have "map id_t (concat (map result_tasks (settled_results orch0 env0 ana))) =
      map id_t (hr_tasks ?e) @ map id_t (it_tasks it_engineering ''ana.lopez@company.com'' ?e)
      @ map id_t (tr_tasks tr_engineering ?e)
      @ map id_t (bd_tasks (score_buddy ''engineering'' (buddyPool0 ! 5)) ?e)"
    unfolding settled_results_list
    by (simp add: result_tasks_def hr it tr bd)
  then have "map id_t (concat (map result_tasks (settled_results orch0 env0 ana))) = ana_ids"
    by (simp only: ana_all_ids)
  with onboard_plan [OF assms, of orch0 env0 ana] show ?thesis by auto
qed

text \<open>
  Claim C8: for every employee input, whatever the state of the four agents and the order in
  which their promises settle, onboard returns a plan whose merged task list has no two
  entries with the same id; every task carries the name of the agent that generated it and
  an id under that agent's namespace (hr-, it-, training-, buddy-).
\<close>

theorem onboard_task_ids_distinct:
  assumes "is_Orchestrator buddyPool orch" and "mset order = mset [0, 1, 2, 3 :: nat]"
  shows "\<exists>p orch'. onboard orch ev order d = Some (p, orch')
     \<and> distinct (map id_t (or_empty (tasks (employee_p p))))
     \<and> (\<forall>t\<in>set (or_empty (tasks (employee_p p))).
          agent t = ''HR Agent'' \<and> take 3 (id_t t) = ''hr-''
        \<or> agent t = ''IT Setup Agent'' \<and> take 3 (id_t t) = ''it-''
        \<or> agent t = ''Training Agent'' \<and> take 9 (id_t t) = ''training-''
        \<or> agent t = ''Buddy Agent'' \<and> take 6 (id_t t) = ''buddy-'')"
proof -
  let ?c = "copyFor (shared_employee ev d)"
  let ?a = "result_tasks (fst (run (hr_agent orch) ?c))"
  let ?b = "result_tasks (fst (run (it_agent orch) ?c))"
  let ?t = "result_tasks (fst (run (training_agent orch) ?c))"
  let ?e = "result_tasks (fst (run (buddy_agent orch) ?c))"
  from assms(1) have cls: "is_HRAgent (hr_agent orch)" "is_ITSetupAgent (it_agent orch)"
    "is_TrainingAgent (training_agent orch)" "is_BuddyAgent buddyPool (buddy_agent orch)"
    by (simp_all add: is_Orchestrator_def)
  have m: "concat (map result_tasks (settled_results orch ev d)) = ?a @ ?b @ ?t @ ?e"
    unfolding settled_results_list by simp
  from onboard_plan [OF assms(2), of orch ev d] obtain p orch' where
    p: "onboard orch ev order d = Some (p, orch')"
      "tasks (employee_p p) = Some (?a @ ?b @ ?t @ ?e)"
    unfolding m by blast
  have ts: "or_empty (tasks (employee_p p)) = ?a @ ?b @ ?t @ ?e"
    by (simp add: p(2))
  note ids = merged_ids [of ?a ?b ?t ?e,
      OF hr_result_ids(1) [OF cls(1)] it_result_ids(1) [OF cls(2)]
         tr_result_ids(1) [OF cls(3)] bd_result_ids(1) [OF cls(4)]
         hr_result_ids(2) [OF cls(1)] it_result_ids(2) [OF cls(2)]
         tr_result_ids(2) [OF cls(3)] bd_result_ids(2) [OF cls(4)]]
  show ?thesis
  proof (intro exI conjI)
    show "onboard orch ev order d = Some (p, orch')" by (rule p(1))
    show "distinct (map id_t (or_empty (tasks (employee_p p))))"
      unfolding ts by (rule ids(1))
    show "\<forall>t\<in>set (or_empty (tasks (employee_p p))).
          agent t = ''HR Agent'' \<and> take 3 (id_t t) = ''hr-''
        \<or> agent t = ''IT Setup Agent'' \<and> take 3 (id_t t) = ''it-''
        \<or> agent t = ''Training Agent'' \<and> take 9 (id_t t) = ''training-''
        \<or> agent t = ''Buddy Agent'' \<and> take 6 (id_t t) = ''buddy-''"
      unfolding ts by (rule ids(2))
  qed
qed

theorem onboard_task_ids_distinct_witness:
  "\<exists>p orch'. onboard orch0 env0 [1, 3, 0, 2] ana = Some (p, orch')
     \<and> map id_t (or_empty (tasks (employee_p p))) = ana_ids
     \<and> length (or_empty (tasks (employee_p p))) = 41
     \<and> distinct (map id_t (or_empty (tasks (employee_p p))))
     \<and> (\<forall>t\<in>set (or_empty (tasks (employee_p p))).
          agent t = ''HR Agent'' \<and> take 3 (id_t t) = ''hr-''
        \<or> agent t = ''IT Setup Agent'' \<and> take 3 (id_t t) = ''it-''
        \<or> agent t = ''Training Agent'' \<and> take 9 (id_t t) = ''training-''
        \<or> agent t = ''Buddy Agent'' \<and> take 6 (id_t t) = ''buddy-'')"
proof -
  have perm: "mset [1, 3, 0, 2] = mset [0, 1, 2, 3 :: nat]" by simp
  have o: "is_Orchestrator buddyPool0 orch0" by (simp add: orch0_def)
  from onboard_task_ids_distinct [OF o perm, of env0 ana] obtain p orch' where
    p: "onboard orch0 env0 [1, 3, 0, 2] ana = Some (p, orch')"
      "distinct (map id_t (or_empty (tasks (employee_p p))))"
      "\<forall>t\<in>set (or_empty (tasks (employee_p p))).
          agent t = ''HR Agent'' \<and> take 3 (id_t t) = ''hr-''
        \<or> agent t = ''IT Setup Agent'' \<and> take 3 (id_t t) = ''it-''
        \<or> agent t = ''Training Agent'' \<and> take 9 (id_t t) = ''training-''
        \<or> agent t = ''Buddy Agent'' \<and> take 6 (id_t t) = ''buddy-''"
    by blast
  from ana_plan_ids [OF perm] p(1)
  have i: "map id_t (or_empty (tasks (employee_p p))) = ana_ids" by auto
  have "length (map id_t (or_empty (tasks (employee_p p)))) = 41"
    unfolding i by (simp add: ana_ids_def)
  then have l: "length (or_empty (tasks (employee_p p))) = 41" by simp
  from p i l show ?thesis by (intro exI [of _ p] exI [of _ orch'] conjI)
qed
end
